theory Spec2Isabelle
  imports Complex_Main
begin

section \<open>Numeric buffers\<close>

text \<open>
  The kinematics core of the toolbox (\<^verbatim>\<open>fknm.c\<close>, \<^verbatim>\<open>methods.cpp\<close>) works on flat
  buffers of doubles. A 4x4 homogeneous transform is a row-major buffer of 16 cells, cell
  \<open>i * 4 + j\<close> holding row \<open>i\<close>, column \<open>j\<close>. Doubles are modelled by the reals (exact
  arithmetic): rounding, infinities and NaN are outside the model. A buffer is a list; a
  function that fills an output buffer returns the cells it has written.
\<close>

type_synonym mat4 = "real list"

definition el :: "mat4 \<Rightarrow> nat \<Rightarrow> nat \<Rightarrow> real" where
  "el M i j = M ! (i * 4 + j)"

text \<open>\<^verbatim>\<open>copy(A, B)\<close>: the sixteen assignments \<open>B[k] = A[k]\<close>.\<close>

definition copy :: "mat4 \<Rightarrow> mat4" where
  "copy A = map (\<lambda>k. A ! k) [0..<16]"

text \<open>
  \<^verbatim>\<open>mult(A, B, C)\<close>: the loops over \<open>i\<close>, \<open>j\<close>, \<open>k\<close> below \<open>N = 4\<close> with
  \<open>C[i * N + j] = sum over k of A[i * N + k] * B[k * N + j]\<close>. Cell \<open>p\<close> of the output is
  the cell of row \<open>p div 4\<close> and column \<open>p mod 4\<close>. The output buffer is distinct from
  both inputs at every call modelled with this function.
\<close>

definition mult :: "mat4 \<Rightarrow> mat4 \<Rightarrow> mat4" where
  "mult A B = map (\<lambda>p. \<Sum>k<4. A ! ((p div 4) * 4 + k) * B ! (k * 4 + p mod 4)) [0..<16]"

text \<open>
  The same loops when the output buffer \<open>C\<close> is the left operand \<open>A\<close> itself: every cell
  is computed from the cells of its row as they stand, the ones before it already
  overwritten.
\<close>

definition mult_inplace :: "mat4 \<Rightarrow> mat4 \<Rightarrow> mat4" where
  "mult_inplace A B =
     fold (\<lambda>p C. C[p := (\<Sum>k<4. C ! ((p div 4) * 4 + k) * B ! (k * 4 + p mod 4))]) [0..<16] A"

definition eye4 :: mat4 where
  "eye4 = [1, 0, 0, 0,  0, 1, 0, 0,  0, 0, 1, 0,  0, 0, 0, 1]"

definition zeros16 :: mat4 where
  "zeros16 = replicate 16 0"

definition rx :: "real \<Rightarrow> mat4" where
  "rx eta = (let ct = cos eta; st = sin eta in
     [1, 0, 0, 0,  0, ct, - st, 0,  0, st, ct, 0,  0, 0, 0, 1])"

definition ry :: "real \<Rightarrow> mat4" where
  "ry eta = (let ct = cos eta; st = sin eta in
     [ct, 0, st, 0,  0, 1, 0, 0,  - st, 0, ct, 0,  0, 0, 0, 1])"

definition rz :: "real \<Rightarrow> mat4" where
  "rz eta = (let ct = cos eta; st = sin eta in
     [ct, - st, 0, 0,  st, ct, 0, 0,  0, 0, 1, 0,  0, 0, 0, 1])"

definition tx :: "real \<Rightarrow> mat4" where
  "tx eta = [1, 0, 0, eta,  0, 1, 0, 0,  0, 0, 1, 0,  0, 0, 0, 1]"

definition ty :: "real \<Rightarrow> mat4" where
  "ty eta = [1, 0, 0, 0,  0, 1, 0, eta,  0, 0, 1, 0,  0, 0, 0, 1]"

definition tz :: "real \<Rightarrow> mat4" where
  "tz eta = [1, 0, 0, 0,  0, 1, 0, 0,  0, 0, 1, eta,  0, 0, 0, 1]"

text \<open>
  \<^verbatim>\<open>_inv(m, inv)\<close>: the rotation block transposed, the translation \<open>-(R\<^sup>T t)\<close> computed
  from the cells of \<open>inv\<close> just written, and the bottom row \<open>0 0 0 1\<close>. Nothing is checked.
\<close>

definition inv4 :: "mat4 \<Rightarrow> mat4" where
  "inv4 m =
     [m ! 0, m ! 4, m ! 8, - (m ! 0 * m ! 3 + m ! 4 * m ! 7 + m ! 8 * m ! 11),
      m ! 1, m ! 5, m ! 9, - (m ! 1 * m ! 3 + m ! 5 * m ! 7 + m ! 9 * m ! 11),
      m ! 2, m ! 6, m ! 10, - (m ! 2 * m ! 3 + m ! 6 * m ! 7 + m ! 10 * m ! 11),
      0, 0, 0, 1]"

text \<open>
  A rigid transform: a full buffer, the bottom row \<open>0 0 0 1\<close> of a homogeneous transform,
  and an orthonormal rotation block (its columns orthonormal and its rows orthonormal).
\<close>

definition homogeneous :: "mat4 \<Rightarrow> bool" where
  "homogeneous M \<longleftrightarrow>
     length M = 16 \<and> el M 3 0 = 0 \<and> el M 3 1 = 0 \<and> el M 3 2 = 0 \<and> el M 3 3 = 1"

definition cols_orthonormal :: "mat4 \<Rightarrow> bool" where
  "cols_orthonormal M \<longleftrightarrow>
     list_all (\<lambda>i. list_all (\<lambda>j. (\<Sum>k<3. el M k i * el M k j) = (if i = j then 1 else 0))
       [0..<3]) [0..<3]"

definition rows_orthonormal :: "mat4 \<Rightarrow> bool" where
  "rows_orthonormal M \<longleftrightarrow>
     list_all (\<lambda>i. list_all (\<lambda>j. (\<Sum>k<3. el M i k * el M j k) = (if i = j then 1 else 0))
       [0..<3]) [0..<3]"

definition rigid :: "mat4 \<Rightarrow> bool" where
  "rigid M \<longleftrightarrow> homogeneous M \<and> cols_orthonormal M \<and> rows_orthonormal M"

section \<open>Elementary transforms and chains\<close>

text \<open>
  The joint type of an element: the codes 0 to 5 of \<^verbatim>\<open>ET_init\<close>, which selects the
  generator \<^verbatim>\<open>op\<close> from the code. Another code leaves \<^verbatim>\<open>op\<close> unset and is not an element
  the core can evaluate.
\<close>

datatype axis = RotX | RotY | RotZ | TransX | TransY | TransZ

fun op :: "axis \<Rightarrow> real \<Rightarrow> mat4" where
  "op RotX eta = rx eta"
| "op RotY eta = ry eta"
| "op RotZ eta = rz eta"
| "op TransX eta = tx eta"
| "op TransY eta = ty eta"
| "op TransZ eta = tz eta"

record ET =
  isjoint :: bool
  isflip :: bool
  jindex :: int
  et_axis :: axis
  et_T :: mat4

text \<open>
  A configuration vector is read through a pointer without a bound: \<open>q k\<close> is the double
  at \<^verbatim>\<open>q[k]\<close>. That the cell belongs to the caller's array is the caller's obligation.
\<close>

type_synonym qvec = "int \<Rightarrow> real"

definition ET_T :: "ET \<Rightarrow> real \<Rightarrow> mat4" where
  "ET_T et eta =
     (if \<not> isjoint et then copy (et_T et)
      else op (et_axis et) (if isflip et then - eta else eta))"

text \<open>
  \<^verbatim>\<open>_ETS_fkine\<close> of \<^verbatim>\<open>methods.cpp\<close>: \<open>current\<close> starts at the base or the identity, each
  element is evaluated and multiplied on the right, the tool is multiplied last. The
  chain is a list of valid elements, so the capsule lookup cannot fail.
\<close>

fun fkine_loop_cpp :: "qvec \<Rightarrow> mat4 \<Rightarrow> ET list \<Rightarrow> mat4" where
  "fkine_loop_cpp q current [] = current"
| "fkine_loop_cpp q current (et # ets) =
     fkine_loop_cpp q (mult current (ET_T et (q (jindex et)))) ets"

definition ETS_fkine_cpp :: "ET list \<Rightarrow> qvec \<Rightarrow> mat4 option \<Rightarrow> mat4 option \<Rightarrow> mat4" where
  "ETS_fkine_cpp ets q base tool =
     (let current = (case base of Some b \<Rightarrow> copy b | None \<Rightarrow> eye4);
          current = fkine_loop_cpp q current ets
      in case tool of Some tm \<Rightarrow> mult current tm | None \<Rightarrow> current)"

text \<open>
  \<^verbatim>\<open>_ETS_fkine\<close> of \<^verbatim>\<open>fknm.c\<close>: the same frame, but the multiplication in the loop is
  commented out; the loop evaluates the element into \<open>ret\<close> and copies \<open>temp\<close>, which
  \<^verbatim>\<open>PyMem_RawCalloc\<close> has zeroed and nothing has written, into \<open>current\<close>.
\<close>

fun fkine_loop_c :: "qvec \<Rightarrow> mat4 \<Rightarrow> mat4 \<Rightarrow> ET list \<Rightarrow> mat4" where
  "fkine_loop_c q temp current [] = current"
| "fkine_loop_c q temp current (et # ets) = fkine_loop_c q temp (copy temp) ets"

definition ETS_fkine_c :: "ET list \<Rightarrow> qvec \<Rightarrow> mat4 option \<Rightarrow> mat4 option \<Rightarrow> mat4" where
  "ETS_fkine_c ets q base tool =
     (let temp = zeros16;
          current = (case base of Some b \<Rightarrow> copy b | None \<Rightarrow> eye4);
          current = fkine_loop_c q temp current ets
      in case tool of Some tm \<Rightarrow> mult current tm | None \<Rightarrow> copy current)"

text \<open>
  The product the specification describes: the matrices of a sequence multiplied in
  order, the empty product being the identity; the base and the tool are the identity
  when absent.
\<close>

fun mat_prod :: "mat4 list \<Rightarrow> mat4" where
  "mat_prod [] = eye4"
| "mat_prod (M # Ms) = mult M (mat_prod Ms)"

definition chain_product :: "ET list \<Rightarrow> qvec \<Rightarrow> mat4 option \<Rightarrow> mat4 option \<Rightarrow> mat4" where
  "chain_product ets q base tool =
     mat_prod ([case base of Some b \<Rightarrow> b | None \<Rightarrow> eye4]
               @ map (\<lambda>et. ET_T et (q (jindex et))) ets
               @ [case tool of Some tm \<Rightarrow> tm | None \<Rightarrow> eye4])"

section \<open>Jacobians\<close>

text \<open>
  The Jacobian is a flat \<open>6 * n\<close> buffer, cell \<open>r * n + j\<close> holding row \<open>r\<close> of column
  \<open>j\<close>; \<open>n\<close> and \<open>j\<close> are C ints. The buffer comes uninitialised from the caller
  (\<^verbatim>\<open>PyArray_EMPTY\<close>), so it is an argument. A write outside the buffer is undefined in
  C; the model leaves the buffer as it is.
\<close>

definition upd :: "real list \<Rightarrow> int \<Rightarrow> real \<Rightarrow> real list" where
  "upd J k v = (if 0 \<le> k then J[nat k := v] else J)"

definition set_col :: "int \<Rightarrow> int \<Rightarrow> real list \<Rightarrow> real list \<Rightarrow> real list" where
  "set_col n j c J =
     upd (upd (upd (upd (upd (upd J (0 * n + j) (c ! 0)) (1 * n + j) (c ! 1))
       (2 * n + j) (c ! 2)) (3 * n + j) (c ! 3)) (4 * n + j) (c ! 4)) (5 * n + j) (c ! 5)"

text \<open>
  The six branches on \<^verbatim>\<open>et->axis\<close> of \<^verbatim>\<open>_ETS_jacob0\<close>: the six cells written to column
  \<open>j\<close>, rows 0 to 5, from \<open>U\<close> and \<open>temp = invU * T\<close>.
\<close>

fun jacob0_col :: "axis \<Rightarrow> mat4 \<Rightarrow> mat4 \<Rightarrow> real list" where
  "jacob0_col RotX U temp =
     [U ! (0 * 4 + 2) * temp ! (1 * 4 + 3) - U ! (0 * 4 + 1) * temp ! (2 * 4 + 3),
      U ! (1 * 4 + 2) * temp ! (1 * 4 + 3) - U ! (1 * 4 + 1) * temp ! (2 * 4 + 3),
      U ! (2 * 4 + 2) * temp ! (1 * 4 + 3) - U ! (2 * 4 + 1) * temp ! (2 * 4 + 3),
      U ! (0 * 4 + 0), U ! (1 * 4 + 0), U ! (2 * 4 + 0)]"
| "jacob0_col RotY U temp =
     [U ! (0 * 4 + 0) * temp ! (2 * 4 + 3) - U ! (0 * 4 + 2) * temp ! (0 * 4 + 3),
      U ! (1 * 4 + 0) * temp ! (2 * 4 + 3) - U ! (1 * 4 + 2) * temp ! (0 * 4 + 3),
      U ! (2 * 4 + 0) * temp ! (2 * 4 + 3) - U ! (2 * 4 + 2) * temp ! (0 * 4 + 3),
      U ! (0 * 4 + 1), U ! (1 * 4 + 1), U ! (2 * 4 + 1)]"
| "jacob0_col RotZ U temp =
     [U ! (0 * 4 + 1) * temp ! (0 * 4 + 3) - U ! (0 * 4 + 0) * temp ! (1 * 4 + 3),
      U ! (1 * 4 + 1) * temp ! (0 * 4 + 3) - U ! (1 * 4 + 0) * temp ! (1 * 4 + 3),
      U ! (2 * 4 + 1) * temp ! (0 * 4 + 3) - U ! (2 * 4 + 0) * temp ! (1 * 4 + 3),
      U ! (0 * 4 + 2), U ! (1 * 4 + 2), U ! (2 * 4 + 2)]"
| "jacob0_col TransX U temp =
     [U ! (0 * 4 + 0), U ! (1 * 4 + 0), U ! (2 * 4 + 0), 0, 0, 0]"
| "jacob0_col TransY U temp =
     [U ! (0 * 4 + 1), U ! (1 * 4 + 1), U ! (2 * 4 + 1), 0, 0, 0]"
| "jacob0_col TransZ U temp =
     [U ! (0 * 4 + 2), U ! (1 * 4 + 2), U ! (2 * 4 + 2), 0, 0, 0]"

text \<open>
  The loop of \<^verbatim>\<open>_ETS_jacob0\<close>, the same in \<^verbatim>\<open>fknm.c\<close> and \<^verbatim>\<open>methods.cpp\<close>, over the
  elements still to come, with the state \<open>(U, j, J)\<close>. The test \<^verbatim>\<open>i == m - 1\<close> holds
  exactly at the last element, that is when no element is left after the current one.
  \<open>T\<close> is the end pose computed before the loop.
\<close>

fun jacob0_loop ::
  "mat4 \<Rightarrow> int \<Rightarrow> qvec \<Rightarrow> mat4 option \<Rightarrow> ET list \<Rightarrow> mat4 \<times> int \<times> real list
     \<Rightarrow> mat4 \<times> int \<times> real list" where
  "jacob0_loop T n q tool [] (U, j, J) = (U, j, J)"
| "jacob0_loop T n q tool (et # ets) (U, j, J) =
     (if isjoint et then
        (let U = mult U (ET_T et (q (jindex et)));
             U = (case tool of Some tm \<Rightarrow> if ets = [] then mult U tm else U | None \<Rightarrow> U);
             invU = inv4 U;
             temp = mult invU T;
             J = set_col n j (jacob0_col (et_axis et) U temp) J
         in jacob0_loop T n q tool ets (U, j + 1, J))
      else jacob0_loop T n q tool ets (mult U (ET_T et (q (jindex et))), j, J))"

definition ETS_jacob0_cpp ::
  "ET list \<Rightarrow> int \<Rightarrow> qvec \<Rightarrow> mat4 option \<Rightarrow> real list \<Rightarrow> real list" where
  "ETS_jacob0_cpp ets n q tool J =
     snd (snd (jacob0_loop (ETS_fkine_cpp ets q None tool) n q tool ets (eye4, 0, J)))"


text \<open>The six branches of \<^verbatim>\<open>_ETS_jacobe\<close>, from the rows of the current \<open>U\<close>.\<close>

fun jacobe_col :: "axis \<Rightarrow> mat4 \<Rightarrow> real list" where
  "jacobe_col RotX U =
     [U ! (2 * 4 + 0) * U ! (1 * 4 + 3) - U ! (1 * 4 + 0) * U ! (2 * 4 + 3),
      U ! (2 * 4 + 1) * U ! (1 * 4 + 3) - U ! (1 * 4 + 1) * U ! (2 * 4 + 3),
      U ! (2 * 4 + 2) * U ! (1 * 4 + 3) - U ! (1 * 4 + 2) * U ! (2 * 4 + 3),
      U ! (0 * 4 + 0), U ! (0 * 4 + 1), U ! (0 * 4 + 2)]"
| "jacobe_col RotY U =
     [U ! (0 * 4 + 0) * U ! (2 * 4 + 3) - U ! (2 * 4 + 0) * U ! (0 * 4 + 3),
      U ! (0 * 4 + 1) * U ! (2 * 4 + 3) - U ! (2 * 4 + 1) * U ! (0 * 4 + 3),
      U ! (0 * 4 + 2) * U ! (2 * 4 + 3) - U ! (2 * 4 + 2) * U ! (0 * 4 + 3),
      U ! (1 * 4 + 0), U ! (1 * 4 + 1), U ! (1 * 4 + 2)]"
| "jacobe_col RotZ U =
     [U ! (1 * 4 + 0) * U ! (0 * 4 + 3) - U ! (0 * 4 + 0) * U ! (1 * 4 + 3),
      U ! (1 * 4 + 1) * U ! (0 * 4 + 3) - U ! (0 * 4 + 1) * U ! (1 * 4 + 3),
      U ! (1 * 4 + 2) * U ! (0 * 4 + 3) - U ! (0 * 4 + 2) * U ! (1 * 4 + 3),
      U ! (2 * 4 + 0), U ! (2 * 4 + 1), U ! (2 * 4 + 2)]"
| "jacobe_col TransX U =
     [U ! (0 * 4 + 0), U ! (0 * 4 + 1), U ! (0 * 4 + 2), 0, 0, 0]"
| "jacobe_col TransY U =
     [U ! (1 * 4 + 0), U ! (1 * 4 + 1), U ! (1 * 4 + 2), 0, 0, 0]"
| "jacobe_col TransZ U =
     [U ! (2 * 4 + 0), U ! (2 * 4 + 1), U ! (2 * 4 + 2), 0, 0, 0]"

text \<open>
  The loop of \<^verbatim>\<open>_ETS_jacobe\<close> over the elements in reverse order (the list reversed in
  \<^verbatim>\<open>fknm.c\<close>, the index running down in \<^verbatim>\<open>methods.cpp\<close>): the column is written from
  the current \<open>U\<close>, then the element is multiplied on the left. The forward kinematics
  that \<^verbatim>\<open>fknm.c\<close> computes before the loop is not read afterwards, so one definition
  stands for both files.
\<close>

fun jacobe_loop ::
  "int \<Rightarrow> qvec \<Rightarrow> ET list \<Rightarrow> mat4 \<times> int \<times> real list \<Rightarrow> mat4 \<times> int \<times> real list" where
  "jacobe_loop n q [] (U, j, J) = (U, j, J)"
| "jacobe_loop n q (et # ets) (U, j, J) =
     (if isjoint et then
        (let J = set_col n j (jacobe_col (et_axis et) U) J;
             U = mult (ET_T et (q (jindex et))) U
         in jacobe_loop n q ets (U, j - 1, J))
      else jacobe_loop n q ets (mult (ET_T et (q (jindex et))) U, j, J))"

definition ETS_jacobe ::
  "ET list \<Rightarrow> int \<Rightarrow> qvec \<Rightarrow> mat4 option \<Rightarrow> real list \<Rightarrow> real list" where
  "ETS_jacobe ets n q tool J =
     (let U = (case tool of Some tm \<Rightarrow> mult tm eye4 | None \<Rightarrow> eye4)
      in snd (snd (jacobe_loop n q (rev ets) (U, n - 1, J))))"

text \<open>
  The specification's side of the relation between the two Jacobians. A \<open>6 x 6\<close> matrix
  is a function of row and column. \<open>Ad T\<close> is the twist adjoint of the transform with
  rotation \<open>R\<close> and translation \<open>p\<close>, rows and columns ordered linear part first:
  \<open>R\<close> in both diagonal blocks, \<open>[p]\<^sub>\<times> R\<close> in the upper right block, zero in the lower
  left. \<open>rot6 T\<close> has \<open>R\<close> in both diagonal blocks and zero elsewhere. \<open>apply6 X n J\<close> is
  the product of \<open>X\<close> with the flat \<open>6 x n\<close> matrix \<open>J\<close>.
\<close>

definition skew :: "mat4 \<Rightarrow> nat \<Rightarrow> nat \<Rightarrow> real" where
  "skew T r k =
     (if r = 0 then (if k = 1 then - el T 2 3 else if k = 2 then el T 1 3 else 0)
      else if r = 1 then (if k = 0 then el T 2 3 else if k = 2 then - el T 0 3 else 0)
      else (if k = 0 then - el T 1 3 else if k = 1 then el T 0 3 else 0))"

definition Ad :: "mat4 \<Rightarrow> nat \<Rightarrow> nat \<Rightarrow> real" where
  "Ad T r c =
     (if r < 3 then (if c < 3 then el T r c else (\<Sum>k<3. skew T r k * el T k (c - 3)))
      else (if c < 3 then 0 else el T (r - 3) (c - 3)))"

definition rot6 :: "mat4 \<Rightarrow> nat \<Rightarrow> nat \<Rightarrow> real" where
  "rot6 T r c =
     (if r < 3 then (if c < 3 then el T r c else 0)
      else (if c < 3 then 0 else el T (r - 3) (c - 3)))"

definition apply6 :: "(nat \<Rightarrow> nat \<Rightarrow> real) \<Rightarrow> nat \<Rightarrow> real list \<Rightarrow> real list" where
  "apply6 X n J = map (\<lambda>p. \<Sum>s<6. X (p div n) s * J ! (s * n + p mod n)) [0..<6 * n]"

section \<open>Hessian\<close>

text \<open>
  \<^verbatim>\<open>_cross(a, b, ret, n)\<close> with \<open>a\<close> and \<open>b\<close> pointing into the Jacobian at offsets \<open>a\<close> and
  \<open>b\<close> and \<open>ret\<close> into the Hessian at offset \<open>r\<close>; the three components are \<open>n\<close> cells
  apart. \<open>n\<close> is a C int; the loops do nothing for a negative \<open>n\<close>, as for 0.
\<close>

definition cross :: "real list \<Rightarrow> nat \<Rightarrow> nat \<Rightarrow> real list \<Rightarrow> nat \<Rightarrow> nat \<Rightarrow> real list" where
  "cross J a b H r n =
     (let H = H[r := J ! (a + 1 * n) * J ! (b + 2 * n) - J ! (a + 2 * n) * J ! (b + 1 * n)];
          H = H[r + 1 * n := J ! (a + 2 * n) * J ! b - J ! a * J ! (b + 2 * n)];
          H = H[r + 2 * n := J ! a * J ! (b + 1 * n) - J ! (a + 1 * n) * J ! b]
      in H)"

definition hessian_body :: "nat \<Rightarrow> real list \<Rightarrow> nat \<Rightarrow> nat \<Rightarrow> real list \<Rightarrow> real list" where
  "hessian_body n J j i H =
     (let n2 = 2 * n; n3 = 3 * n; n4 = 4 * n; n5 = 5 * n;
          a = j * 6 * n;
          b = i * 6 * n;
          H = cross J (j + n3) i H (a + i) n;
          H = cross J (j + n3) (i + n3) H (a + i + n3) n
      in if i \<noteq> j then
           (let H = H[b + j := H ! (a + i)];
                H = H[b + j + n := H ! (a + i + n)];
                H = H[b + j + n2 := H ! (a + i + n2)];
                H = H[b + j + n3 := 0];
                H = H[b + j + n4 := 0];
                H = H[b + j + n5 := 0]
            in H)
         else H)"

definition ETS_hessian :: "nat \<Rightarrow> real list \<Rightarrow> real list \<Rightarrow> real list" where
  "ETS_hessian n J H =
     fold (\<lambda>j H. fold (\<lambda>i H. hessian_body n J j i H) [j..<n] H) [0..<n] H"

text \<open>
  The cross product of two 3-vectors, component \<open>c\<close>, as the specification writes it.
\<close>

definition cross3 :: "(nat \<Rightarrow> real) \<Rightarrow> (nat \<Rightarrow> real) \<Rightarrow> nat \<Rightarrow> real" where
  "cross3 u v c =
     (if c = 0 then u 1 * v 2 - u 2 * v 1
      else if c = 1 then u 2 * v 0 - u 0 * v 2
      else u 0 * v 1 - u 1 * v 0)"

text \<open>
  Reading the buffers as the specification names them: \<open>Jlin n J j\<close> is \<open>J[0:3, j]\<close>,
  \<open>Jang n J j\<close> is \<open>J[3:6, j]\<close>, and \<open>Hcell n H j r i\<close> is row \<open>r\<close>, column \<open>i\<close> of the
  slice \<open>H[j]\<close>.
\<close>

definition Jlin :: "nat \<Rightarrow> real list \<Rightarrow> nat \<Rightarrow> nat \<Rightarrow> real" where
  "Jlin n J j c = J ! (c * n + j)"

definition Jang :: "nat \<Rightarrow> real list \<Rightarrow> nat \<Rightarrow> nat \<Rightarrow> real" where
  "Jang n J j c = J ! ((3 + c) * n + j)"

definition hidx :: "nat \<Rightarrow> nat \<Rightarrow> nat \<Rightarrow> nat \<Rightarrow> nat" where
  "hidx n j r i = j * 6 * n + r * n + i"

definition Hcell :: "nat \<Rightarrow> real list \<Rightarrow> nat \<Rightarrow> nat \<Rightarrow> nat \<Rightarrow> real" where
  "Hcell n H j r i = H ! hidx n j r i"

text \<open>
  The values the specification gives to the cells of the Hessian: \<open>hess_direct\<close> is row
  \<open>r\<close> of the entry for the pair \<open>(j, i)\<close>, the linear block in rows 0 to 2 and the
  angular block in rows 3 to 5.
\<close>

definition hess_direct :: "nat \<Rightarrow> real list \<Rightarrow> nat \<Rightarrow> nat \<Rightarrow> nat \<Rightarrow> real" where
  "hess_direct n J j i r =
     (if r < 3 then cross3 (Jang n J j) (Jlin n J i) r
      else cross3 (Jang n J j) (Jang n J i) (r - 3))"

text \<open>
  The cell of row \<open>r\<close>, column \<open>c\<close> of the slice \<open>H[a]\<close> according to the specification:
  the entry of the pair \<open>(a, c)\<close> when \<open>c \<ge> a\<close>; otherwise the mirror of the entry of the
  pair \<open>(c, a)\<close>, its linear block copied and its angular block zero.
\<close>

definition hess_spec :: "nat \<Rightarrow> real list \<Rightarrow> nat \<Rightarrow> nat \<Rightarrow> nat \<Rightarrow> real" where
  "hess_spec n J a r c =
     (if a \<le> c then hess_direct n J a c r
      else if r < 3 then hess_direct n J c a r
      else 0)"

text \<open>The pairs \<open>(j, i)\<close> in the order in which the two loops visit them.\<close>

definition hessian_pairs :: "nat \<Rightarrow> (nat \<times> nat) list" where
  "hessian_pairs n = concat (map (\<lambda>j. map (\<lambda>i. (j, i)) [j..<n]) [0..<n])"

text \<open>
  Six cells written one after the other, rows 0 to 5 of column \<open>i\<close> of the slice \<open>j\<close>;
  \<open>touches j i a c\<close> says that the round for the pair \<open>(j, i)\<close> writes column \<open>c\<close> of
  the slice \<open>a\<close>.
\<close>

definition write6 :: "nat \<Rightarrow> nat \<Rightarrow> nat \<Rightarrow> real list \<Rightarrow> real list \<Rightarrow> real list" where
  "write6 n j i v H =
     H[hidx n j 0 i := v ! 0, hidx n j 1 i := v ! 1, hidx n j 2 i := v ! 2,
       hidx n j 3 i := v ! 3, hidx n j 4 i := v ! 4, hidx n j 5 i := v ! 5]"

definition touches :: "nat \<Rightarrow> nat \<Rightarrow> nat \<Rightarrow> nat \<Rightarrow> bool" where
  "touches j i a c \<longleftrightarrow> (a = j \<and> c = i) \<or> (a = i \<and> c = j)"

section \<open>Pose error\<close>

definition norm_n :: "real list \<Rightarrow> nat \<Rightarrow> real" where
  "norm_n a n = sqrt (\<Sum>i<n. (a ! i) ^ 2)"

definition trace_n :: "real list \<Rightarrow> nat \<Rightarrow> real" where
  "trace_n a n = (\<Sum>i<n. a ! (i * n + i))"

text \<open>
  The C library's \<^verbatim>\<open>atan2(y, x)\<close> on the reals: the angle of the point \<open>(x, y)\<close> in
  \<open>(-\<pi>, \<pi>]\<close>, and 0 at the origin. Signed zeros are outside the model.
\<close>

definition atan2 :: "real \<Rightarrow> real \<Rightarrow> real" where
  "atan2 y x =
     (if 0 < x then arctan (y / x)
      else if x < 0 then (if 0 \<le> y then arctan (y / x) + pi else arctan (y / x) - pi)
      else if 0 < y then pi / 2
      else if y < 0 then - (pi / 2)
      else 0)"

text \<open>
  \<^verbatim>\<open>_angle_axis(Te, Tep, e)\<close>: all six cells of \<open>e\<close> are written on every path, so the
  function returns them. \<open>R\<close> is a \<open>3 x 3\<close> row-major scratch buffer, cell \<open>p\<close> holding
  row \<open>p div 3\<close> and column \<open>p mod 3\<close>; \<^verbatim>\<open>M_PI_2\<close> is \<open>\<pi> / 2\<close>.
\<close>

definition angle_axis :: "mat4 \<Rightarrow> mat4 \<Rightarrow> real list" where
  "angle_axis Te Tep =
     (let e0 = Tep ! (0 * 4 + 3) - Te ! (0 * 4 + 3);
          e1 = Tep ! (1 * 4 + 3) - Te ! (1 * 4 + 3);
          e2 = Tep ! (2 * 4 + 3) - Te ! (2 * 4 + 3);
          R = map (\<lambda>p. \<Sum>k<3. Tep ! ((p div 3) * 4 + k) * Te ! ((p mod 3) * 4 + k)) [0..<9];
          li = [R ! (2 * 3 + 1) - R ! (1 * 3 + 2),
                R ! (0 * 3 + 2) - R ! (2 * 3 + 0),
                R ! (1 * 3 + 0) - R ! (0 * 3 + 1)];
          li_norm = norm_n li 3;
          R_tr = trace_n R 3
      in if li_norm < 1 / 10 ^ 6 then
           (if 0 < R_tr then [e0, e1, e2, 0, 0, 0]
            else [e0, e1, e2,
                  pi / 2 * (R ! 0 + 1), pi / 2 * (R ! 4 + 1), pi / 2 * (R ! 8 + 1)])
         else
           (let ang = atan2 li_norm (R_tr - 1)
            in [e0, e1, e2,
                ang * li ! 0 / li_norm, ang * li ! 1 / li_norm, ang * li ! 2 / li_norm]))"

text \<open>
  The pose error as the specification words it, from the rotation and translation
  blocks of the two poses.
\<close>

definition rot_err_matrix :: "mat4 \<Rightarrow> mat4 \<Rightarrow> nat \<Rightarrow> nat \<Rightarrow> real" where
  "rot_err_matrix achieved target i j = (\<Sum>k<3. el target i k * el achieved j k)"

definition poseError :: "mat4 \<Rightarrow> mat4 \<Rightarrow> real list" where
  "poseError achieved target =
     (let R = rot_err_matrix achieved target;
          l0 = R 2 1 - R 1 2;
          l1 = R 0 2 - R 2 0;
          l2 = R 1 0 - R 0 1;
          nrm = sqrt (l0 ^ 2 + l1 ^ 2 + l2 ^ 2);
          tr = R 0 0 + R 1 1 + R 2 2;
          rot = (if nrm < 1 / 10 ^ 6 then
                   (if 0 < tr then [0, 0, 0]
                    else [pi / 2 * (R 0 0 + 1), pi / 2 * (R 1 1 + 1), pi / 2 * (R 2 2 + 1)])
                 else [atan2 nrm (tr - 1) * l0 / nrm,
                       atan2 nrm (tr - 1) * l1 / nrm,
                       atan2 nrm (tr - 1) * l2 / nrm])
      in [el target 0 3 - el achieved 0 3,
          el target 1 3 - el achieved 1 3,
          el target 2 3 - el achieved 2 3] @ rot)"

section \<open>Inverse kinematics iterator\<close>

text \<open>
  The local state of \<^verbatim>\<open>_ETS_IK\<close>. \<open>Te\<close> and \<open>e\<close> come zeroed from \<^verbatim>\<open>PyMem_RawCalloc\<close>;
  \<open>E\<close> is declared without a value, so its first value is an argument. The buffers
  \<open>a\<close> and \<open>b\<close> are filled with constants and never read.
\<close>

record ik_state =
  ik_q :: qvec
  ik_Te :: mat4
  ik_e :: "real list"
  ik_E :: real
  arrived :: int
  iter :: int

text \<open>The loop body in \<^verbatim>\<open>fknm.c\<close>: forward kinematics, pose error, squared error.\<close>

definition IK_body_c :: "ET list \<Rightarrow> mat4 \<Rightarrow> ik_state \<Rightarrow> ik_state" where
  "IK_body_c ets Tep s =
     (let Te = ETS_fkine_c ets (ik_q s) None None;
          e = angle_axis Te Tep;
          E = 0.5 * (e ! 0 * e ! 0 + e ! 1 * e ! 1 + e ! 2 * e ! 2
                     + e ! 3 * e ! 3 + e ! 4 * e ! 4 + e ! 5 * e ! 5)
      in s\<lparr>ik_Te := Te, ik_e := e, ik_E := E\<rparr>)"

text \<open>The loop body in \<^verbatim>\<open>methods.cpp\<close>: only the pose error is computed.\<close>

definition IK_body_cpp :: "mat4 \<Rightarrow> ik_state \<Rightarrow> ik_state" where
  "IK_body_cpp Tep s = s\<lparr>ik_e := angle_axis (ik_Te s) Tep\<rparr>"

definition IK_guard :: "ik_state \<Rightarrow> bool" where
  "IK_guard s \<longleftrightarrow> arrived s = 0 \<and> iter s < 500"

partial_function (option) IK_loop :: "(ik_state \<Rightarrow> ik_state) \<Rightarrow> ik_state \<Rightarrow> ik_state option" where
  "IK_loop body s = (if IK_guard s then IK_loop body (body s) else Some s)"

definition IK_init :: "qvec \<Rightarrow> real \<Rightarrow> ik_state" where
  "IK_init q E0 =
     \<lparr>ik_q = q, ik_Te = zeros16, ik_e = replicate 6 0, ik_E = E0, arrived = 0, iter = 0\<rparr>"

text \<open>
  \<^verbatim>\<open>_ETS_IK\<close>: the loop, after which nothing is written; the result buffer \<open>ret\<close> is
  returned as it came. \<open>None\<close> is a run that does not return.
\<close>

definition ETS_IK_c :: "ET list \<Rightarrow> int \<Rightarrow> qvec \<Rightarrow> mat4 \<Rightarrow> real list \<Rightarrow> real \<Rightarrow> real list option" where
  "ETS_IK_c ets n q Tep ret E0 =
     (case IK_loop (IK_body_c ets Tep) (IK_init q E0) of None \<Rightarrow> None | Some s \<Rightarrow> Some ret)"

definition ETS_IK_cpp :: "ET list \<Rightarrow> int \<Rightarrow> qvec \<Rightarrow> mat4 \<Rightarrow> real list \<Rightarrow> real \<Rightarrow> real list option" where
  "ETS_IK_cpp ets n q Tep ret E0 =
     (case IK_loop (IK_body_cpp Tep) (IK_init q E0) of None \<Rightarrow> None | Some s \<Rightarrow> Some ret)"

section \<open>Kinematic tree\<close>

text \<open>
  A link of the tree, with the buffers it points to. Links live in a table indexed by
  link id; the parent pointer is the id of the parent. Every buffer of the table is a
  buffer of its own: two links share a buffer only by being the same link.
\<close>

record Link =
  l_isjoint :: bool
  l_isflip :: bool
  l_jindex :: int
  l_axis :: axis
  l_A :: mat4
  l_fk :: mat4
  l_parent :: "nat option"
  n_shapes :: nat
  shape_base :: "mat4 list"
  shape_wT :: "mat4 list"
  shape_sT :: "mat4 list"
  shape_sq :: "real list list"

type_synonym links = "nat \<Rightarrow> Link"

text \<open>\<^verbatim>\<open>A(link, ret, eta)\<close>: the static part, times the joint's generator for a joint.\<close>

definition A_link :: "Link \<Rightarrow> real \<Rightarrow> mat4" where
  "A_link link eta =
     (if \<not> l_isjoint link then copy (l_A link)
      else (let eta = (if l_isflip link then - eta else eta);
                v = op (l_axis link) eta
            in mult (l_A link) v))"

text \<open>\<^verbatim>\<open>_r2q(r, q)\<close>: the four cells of \<open>q\<close>, \<open>pow(x, 2)\<close> being \<open>x\<^sup>2\<close>.\<close>

definition r2q :: "mat4 \<Rightarrow> real list" where
  "r2q r =
     (let t12p = (r ! (0 * 4 + 1) + r ! (1 * 4 + 0)) ^ 2;
          t13p = (r ! (0 * 4 + 2) + r ! (2 * 4 + 0)) ^ 2;
          t23p = (r ! (1 * 4 + 2) + r ! (2 * 4 + 1)) ^ 2;
          t12m = (r ! (0 * 4 + 1) - r ! (1 * 4 + 0)) ^ 2;
          t13m = (r ! (0 * 4 + 2) - r ! (2 * 4 + 0)) ^ 2;
          t23m = (r ! (1 * 4 + 2) - r ! (2 * 4 + 1)) ^ 2;
          d1 = (r ! (0 * 4 + 0) + r ! (1 * 4 + 1) + r ! (2 * 4 + 2) + 1) ^ 2;
          d2 = (r ! (0 * 4 + 0) - r ! (1 * 4 + 1) - r ! (2 * 4 + 2) + 1) ^ 2;
          d3 = (- r ! (0 * 4 + 0) + r ! (1 * 4 + 1) - r ! (2 * 4 + 2) + 1) ^ 2;
          d4 = (- r ! (0 * 4 + 0) - r ! (1 * 4 + 1) + r ! (2 * 4 + 2) + 1) ^ 2;
          q3 = sqrt (d1 + t23m + t13m + t12m) / 4;
          q0 = sqrt (t23m + d2 + t12p + t13p) / 4;
          q1 = sqrt (t13m + t12p + d3 + t23p) / 4;
          q2 = sqrt (t12m + t13p + t23p + d4) / 4;
          q0 = (if r ! (2 * 4 + 1) < r ! (1 * 4 + 2) then - q0 else q0);
          q1 = (if r ! (0 * 4 + 2) < r ! (2 * 4 + 0) then - q1 else q1);
          q2 = (if r ! (1 * 4 + 0) < r ! (0 * 4 + 1) then - q2 else q2)
      in [q0, q1, q2, q3])"

text \<open>One round of the loop over the shapes of a link in \<^verbatim>\<open>fkine_all\<close>.\<close>

definition set_shape :: "nat \<Rightarrow> Link \<Rightarrow> Link" where
  "set_shape i link =
     (let wT = (shape_wT link)[i := copy (l_fk link)];
          sT = (shape_sT link)[i := mult (l_fk link) (shape_base link ! i)];
          sq = (shape_sq link)[i := r2q (sT ! i)]
      in link\<lparr>shape_wT := wT, shape_sT := sT, shape_sq := sq\<rparr>)"

text \<open>
  One round of the loop over the links: the local transform, the world pose from the
  parent's or from the base, then the shapes. A link that is its own parent has its
  pose multiplied in place.
\<close>

definition fkine_all_link :: "qvec \<Rightarrow> mat4 \<Rightarrow> links \<Rightarrow> nat \<Rightarrow> links" where
  "fkine_all_link q base s l =
     (let link = s l;
          ret = A_link link (q (l_jindex link));
          fk = (case l_parent link of
                  Some p \<Rightarrow> if p = l then mult_inplace (l_fk link) ret
                            else mult (l_fk (s p)) ret
                | None \<Rightarrow> mult base ret);
          link = link\<lparr>l_fk := fk\<rparr>;
          link = fold set_shape [0..<n_shapes link] link
      in s(l := link))"

text \<open>
  \<^verbatim>\<open>fkine_all\<close>: \<open>m\<close> links are taken from the list in order. When the list has fewer,
  the capsule lookup fails and the function returns \<^verbatim>\<open>NULL\<close> with the links visited so
  far updated: \<open>Inl\<close>. Otherwise it returns \<^verbatim>\<open>None\<close>: \<open>Inr\<close>.
\<close>

definition run_links :: "qvec \<Rightarrow> mat4 \<Rightarrow> nat list \<Rightarrow> links \<Rightarrow> links" where
  "run_links q base ls s = fold (\<lambda>l s. fkine_all_link q base s l) ls s"

definition fkine_all :: "nat \<Rightarrow> nat list \<Rightarrow> qvec \<Rightarrow> mat4 \<Rightarrow> links \<Rightarrow> links + links" where
  "fkine_all m ls q base s =
     (if m \<le> length ls then Inr (run_links q base (take m ls) s)
      else Inl (run_links q base ls s))"

text \<open>
  The local transform of a link at the configuration \<open>q\<close>, and the order the caller
  guarantees: no link twice, and the parent of a link neither the link itself nor a
  link visited after it.
\<close>

definition local_T :: "qvec \<Rightarrow> Link \<Rightarrow> mat4" where
  "local_T q link = A_link link (q (l_jindex link))"

text \<open>
  The local transform as the specification words it, by the rule for chain elements: the
  link read as an element, static with the pose \<open>A\<close> or a joint with the link's axis, flip
  and joint index, and evaluated at \<open>q[jindex]\<close>.
\<close>

definition link_as_ET :: "Link \<Rightarrow> ET" where
  "link_as_ET link =
     \<lparr>isjoint = l_isjoint link, isflip = l_isflip link, jindex = l_jindex link,
      et_axis = l_axis link, et_T = l_A link\<rparr>"

definition ET_rule_local :: "qvec \<Rightarrow> Link \<Rightarrow> mat4" where
  "ET_rule_local q link = ET_T (link_as_ET link) (q (l_jindex link))"

definition parent_before_child :: "links \<Rightarrow> nat list \<Rightarrow> bool" where
  "parent_before_child s ls \<longleftrightarrow>
     distinct ls \<and>
     list_all (\<lambda>i. case l_parent (s (ls ! i)) of None \<Rightarrow> True | Some p \<Rightarrow> p \<notin> set (drop i ls))
       [0..<length ls]"

section \<open>Relating the two Jacobians\<close>

text \<open>
  The transform of an element at the configuration \<open>q\<close>, the number of joints of a
  chain (the number \<open>n\<close> of columns the caller passes), and chains whose static elements
  are rigid transforms.
\<close>

definition elem :: "qvec \<Rightarrow> ET \<Rightarrow> mat4" where
  "elem q et = ET_T et (q (jindex et))"

definition n_joints :: "ET list \<Rightarrow> nat" where
  "n_joints ets = length (filter isjoint ets)"

definition rigid_chain :: "ET list \<Rightarrow> bool" where
  "rigid_chain ets \<longleftrightarrow> list_all (\<lambda>et. isjoint et \<or> rigid (et_T et)) ets"

text \<open>
  The pose of the elements after a joint, as the reverse sweep accumulates it, and the
  columns each sweep computes, in the order it computes them: \<open>cols0\<close> for the loop of
  \<^verbatim>\<open>_ETS_jacob0\<close> without a tool, \<open>colse\<close> for the loop of \<^verbatim>\<open>_ETS_jacobe\<close> over a
  reversed chain, and \<open>colsE\<close> the latter's columns in chain order.
\<close>

definition suffix_pose :: "qvec \<Rightarrow> ET list \<Rightarrow> mat4" where
  "suffix_pose q ets = foldr (\<lambda>et U. mult (elem q et) U) ets eye4"

fun cols0 :: "mat4 \<Rightarrow> qvec \<Rightarrow> mat4 \<Rightarrow> ET list \<Rightarrow> real list list" where
  "cols0 T q U [] = []"
| "cols0 T q U (et # ets) =
     (let U = mult U (elem q et)
      in (if isjoint et then [jacob0_col (et_axis et) U (mult (inv4 U) T)] else [])
         @ cols0 T q U ets)"

fun colse :: "qvec \<Rightarrow> mat4 \<Rightarrow> ET list \<Rightarrow> real list list" where
  "colse q U [] = []"
| "colse q U (et # ets) =
     (if isjoint et then [jacobe_col (et_axis et) U] else [])
     @ colse q (mult (elem q et) U) ets"

fun colsE :: "qvec \<Rightarrow> ET list \<Rightarrow> real list list" where
  "colsE q [] = []"
| "colsE q (et # ets) =
     (if isjoint et then [jacobe_col (et_axis et) (suffix_pose q ets)] else []) @ colsE q ets"

text \<open>
  Columns written one after the other from column \<open>j\<close> upwards or downwards, the flat
  \<open>6 x N\<close> buffer made of \<open>N\<close> columns, the cell index of row \<open>r\<close> and column \<open>k\<close>, and a
  \<open>6 x 6\<close> matrix applied to one column.
\<close>

fun write_cols :: "int \<Rightarrow> int \<Rightarrow> real list list \<Rightarrow> real list \<Rightarrow> real list" where
  "write_cols n j [] J = J"
| "write_cols n j (c # cs) J = write_cols n (j + 1) cs (set_col n j c J)"

fun write_cols_down :: "int \<Rightarrow> int \<Rightarrow> real list list \<Rightarrow> real list \<Rightarrow> real list" where
  "write_cols_down n j [] J = J"
| "write_cols_down n j (c # cs) J = write_cols_down n (j - 1) cs (set_col n j c J)"

definition flat :: "nat \<Rightarrow> real list list \<Rightarrow> real list" where
  "flat N cs = map (\<lambda>p. cs ! (p mod N) ! (p div N)) [0..<6 * N]"

definition cidx :: "nat \<Rightarrow> nat \<Rightarrow> nat \<Rightarrow> nat" where
  "cidx N r k = r * N + k"

definition ap6 :: "(nat \<Rightarrow> nat \<Rightarrow> real) \<Rightarrow> real list \<Rightarrow> real list" where
  "ap6 X c = map (\<lambda>r. \<Sum>s<6. X r s * c ! s) [0..<6]"

section \<open>Concrete instances\<close>

text \<open>A rigid pose used as a concrete instance: a quarter turn about \<open>z\<close> and a translation.\<close>

definition example_pose :: mat4 where
  "example_pose = [0, - 1, 0, 1,  1, 0, 0, 2,  0, 0, 1, 3,  0, 0, 0, 1]"

text \<open>A chain element used in concrete instances: the static identity transform.\<close>

definition static_eye :: ET where
  "static_eye = \<lparr>isjoint = False, isflip = False, jindex = 0, et_axis = RotX, et_T = eye4\<rparr>"

text \<open>A \<open>6 x 2\<close> Jacobian and a Hessian buffer for it, used as a concrete instance.\<close>

definition example_J :: "real list" where
  "example_J = [1, 2, 3, 4, 5, 6, 7, 8, 9, 10, 11, 12]"

definition example_H :: "real list" where
  "example_H = replicate 24 5"

text \<open>A root and a child with one shape each, used as a concrete instance.\<close>

definition example_links :: links where
  "example_links =
     (\<lambda>k. \<lparr>l_isjoint = (k = 1), l_isflip = False, l_jindex = 0, l_axis = TransX,
           l_A = example_pose, l_fk = zeros16,
           l_parent = (if k = 1 then Some 0 else None), n_shapes = 1,
           shape_base = [example_pose], shape_wT = [zeros16], shape_sT = [zeros16],
           shape_sq = [[0, 0, 0, 0]]\<rparr>)"

text \<open>
  Chain elements used in concrete instances: a joint turning about \<open>z\<close> with joint index 0,
  and the static translation by 1 along \<open>x\<close>.
\<close>

definition joint_rz :: ET where
  "joint_rz = \<lparr>isjoint = True, isflip = False, jindex = 0, et_axis = RotZ, et_T = eye4\<rparr>"

definition static_tx :: ET where
  "static_tx = \<lparr>isjoint = False, isflip = False, jindex = 0, et_axis = RotX, et_T = tx 1\<rparr>"

text \<open>The configuration with every joint value 0.\<close>

definition zero_q :: qvec where
  "zero_q = (\<lambda>k. 0)"

section \<open>Arithmetic and list facts\<close>

lemma lt3: "(i::nat) < 3 \<longleftrightarrow> i = 0 \<or> i = 1 \<or> i = 2"
  by auto

lemma lt4: "(i::nat) < 4 \<longleftrightarrow> i = 0 \<or> i = 1 \<or> i = 2 \<or> i = 3"
  by auto

lemma lt6: "(r::nat) < 6 \<longleftrightarrow> r = 0 \<or> r = 1 \<or> r = 2 \<or> r = 3 \<or> r = 4 \<or> r = 5"
  by auto

lemma sum3: "(\<Sum>k<(3::nat). f k) = f 0 + f 1 + (f 2 :: real)"
  by (simp add: numeral_eq_Suc lessThan_Suc)

lemma sum4: "(\<Sum>k<(4::nat). f k) = f 0 + f 1 + f 2 + (f 3 :: real)"
  by (simp add: numeral_eq_Suc lessThan_Suc)

lemma sum4_split: "(\<Sum>k<(4::nat). f k) = (\<Sum>k<3. f k) + (f 3 :: real)"
  by (simp add: sum4 sum3)

lemma sum6: "(\<Sum>k<(6::nat). f k) = f 0 + f 1 + f 2 + f 3 + f 4 + (f 5 :: real)"
  by (simp add: numeral_eq_Suc lessThan_Suc)

lemma upt_3: "[0..<3] = [0, 1, 2]"
  by (simp add: upt_rec)

lemma upt_6: "[0..<6] = [0, 1, 2, 3, 4, 5]"
  by (simp add: upt_rec)

lemma upt_9: "[0..<9] = [0, 1, 2, 3, 4, 5, 6, 7, 8]"
  by (simp add: upt_rec)

lemma upt_16: "[0..<16] = [0, 1, 2, 3, 4, 5, 6, 7, 8, 9, 10, 11, 12, 13, 14, 15]"
  by (simp add: upt_rec)

lemma Suc_Suc_0: "Suc (Suc 0) = 2"
  by simp

lemma list_update_Cons_numeral:
  "(x # xs)[numeral k := y] = x # xs[pred_numeral k := y]"
  by (simp add: numeral_eq_Suc)

lemma mult_cells:
  "mult A B =
    [A ! 0 * B ! 0 + A ! 1 * B ! 4 + A ! 2 * B ! 8 + A ! 3 * B ! 12,
     A ! 0 * B ! 1 + A ! 1 * B ! 5 + A ! 2 * B ! 9 + A ! 3 * B ! 13,
     A ! 0 * B ! 2 + A ! 1 * B ! 6 + A ! 2 * B ! 10 + A ! 3 * B ! 14,
     A ! 0 * B ! 3 + A ! 1 * B ! 7 + A ! 2 * B ! 11 + A ! 3 * B ! 15,
     A ! 4 * B ! 0 + A ! 5 * B ! 4 + A ! 6 * B ! 8 + A ! 7 * B ! 12,
     A ! 4 * B ! 1 + A ! 5 * B ! 5 + A ! 6 * B ! 9 + A ! 7 * B ! 13,
     A ! 4 * B ! 2 + A ! 5 * B ! 6 + A ! 6 * B ! 10 + A ! 7 * B ! 14,
     A ! 4 * B ! 3 + A ! 5 * B ! 7 + A ! 6 * B ! 11 + A ! 7 * B ! 15,
     A ! 8 * B ! 0 + A ! 9 * B ! 4 + A ! 10 * B ! 8 + A ! 11 * B ! 12,
     A ! 8 * B ! 1 + A ! 9 * B ! 5 + A ! 10 * B ! 9 + A ! 11 * B ! 13,
     A ! 8 * B ! 2 + A ! 9 * B ! 6 + A ! 10 * B ! 10 + A ! 11 * B ! 14,
     A ! 8 * B ! 3 + A ! 9 * B ! 7 + A ! 10 * B ! 11 + A ! 11 * B ! 15,
     A ! 12 * B ! 0 + A ! 13 * B ! 4 + A ! 14 * B ! 8 + A ! 15 * B ! 12,
     A ! 12 * B ! 1 + A ! 13 * B ! 5 + A ! 14 * B ! 9 + A ! 15 * B ! 13,
     A ! 12 * B ! 2 + A ! 13 * B ! 6 + A ! 14 * B ! 10 + A ! 15 * B ! 14,
     A ! 12 * B ! 3 + A ! 13 * B ! 7 + A ! 14 * B ! 11 + A ! 15 * B ! 15]"
  by (simp add: mult_def upt_16 sum4 Suc_Suc_0)

section \<open>Matrix algebra\<close>

lemma length_mult: "length (mult A B) = 16"
  by (simp add: mult_def)

lemma length_copy: "length (copy A) = 16"
  by (simp add: copy_def)

lemma nth_copy: "k < 16 \<Longrightarrow> copy A ! k = A ! k"
  by (simp add: copy_def)

lemma copy_id: "length A = 16 \<Longrightarrow> copy A = A"
  by (rule nth_equalityI) (simp_all add: copy_def)

lemma nth_mult:
  "p < 16 \<Longrightarrow> mult A B ! p = (\<Sum>k<4. A ! ((p div 4) * 4 + k) * B ! (k * 4 + p mod 4))"
  by (simp add: mult_def)

lemma el_mult:
  assumes "i < 4" "j < 4"
  shows "el (mult A B) i j = (\<Sum>k<4. el A i k * el B k j)"
proof -
  have "i * 4 + j < 16" using assms by simp
  moreover have "(i * 4 + j) div 4 = i" "(i * 4 + j) mod 4 = j" using assms by simp_all
  ultimately show ?thesis by (simp add: el_def nth_mult)
qed

lemma mat4_eqI:
  assumes "length A = 16" "length B = 16"
    and "\<And>i j. i < 4 \<Longrightarrow> j < 4 \<Longrightarrow> el A i j = el B i j"
  shows "A = B"
proof (rule nth_equalityI)
  show "length A = length B" using assms by simp
next
  fix p assume "p < length A"
  then have p: "p < 16" using assms by simp
  then have "p div 4 < 4" "p mod 4 < 4" by simp_all
  then have "el A (p div 4) (p mod 4) = el B (p div 4) (p mod 4)" by (rule assms(3))
  then show "A ! p = B ! p" by (simp add: el_def)
qed

lemma mult_assoc4: "mult (mult A B) C = mult A (mult B C)"
proof (rule mat4_eqI)
  fix i j :: nat assume ij: "i < 4" "j < 4"
  have "el (mult (mult A B) C) i j = (\<Sum>k<4. (\<Sum>l<4. el A i l * el B l k) * el C k j)"
    using ij by (simp add: el_mult)
  also have "\<dots> = (\<Sum>k<4. \<Sum>l<4. el A i l * el B l k * el C k j)"
    by (simp add: sum_distrib_right)
  also have "\<dots> = (\<Sum>l<4. \<Sum>k<4. el A i l * el B l k * el C k j)"
    by (rule sum.swap)
  also have "\<dots> = (\<Sum>l<4. el A i l * (\<Sum>k<4. el B l k * el C k j))"
    by (simp add: sum_distrib_left mult.assoc)
  also have "\<dots> = el (mult A (mult B C)) i j"
    using ij by (simp add: el_mult)
  finally show "el (mult (mult A B) C) i j = el (mult A (mult B C)) i j" .
qed (simp_all add: length_mult)

lemma el_eye4: "i < 4 \<Longrightarrow> j < 4 \<Longrightarrow> el eye4 i j = (if i = j then 1 else 0)"
  by (auto simp: lt4 el_def eye4_def)

lemma length_eye4: "length eye4 = 16"
  by (simp add: eye4_def)

lemma mult_eye4_right: "mult A eye4 = copy A"
proof (rule mat4_eqI)
  fix i j :: nat assume ij: "i < 4" "j < 4"
  have "el (mult A eye4) i j = (\<Sum>k<4. el A i k * (if k = j then 1 else 0))"
    using ij by (simp add: el_mult el_eye4)
  also have "\<dots> = el A i j" using ij by (auto simp: sum4 lt4)
  also have "\<dots> = el (copy A) i j" using ij by (simp add: el_def nth_copy)
  finally show "el (mult A eye4) i j = el (copy A) i j" .
qed (simp_all add: length_mult length_copy)

lemma mult_eye4_left: "mult eye4 A = copy A"
proof (rule mat4_eqI)
  fix i j :: nat assume ij: "i < 4" "j < 4"
  have "el (mult eye4 A) i j = (\<Sum>k<4. (if k = i then 1 else 0) * el A k j)"
    using ij by (simp add: el_mult el_eye4 eq_commute)
  also have "\<dots> = el A i j" using ij by (auto simp: sum4 lt4)
  also have "\<dots> = el (copy A) i j" using ij by (simp add: el_def nth_copy)
  finally show "el (mult eye4 A) i j = el (copy A) i j" .
qed (simp_all add: length_mult length_copy)

lemma el_copy: "i < 4 \<Longrightarrow> j < 4 \<Longrightarrow> el (copy A) i j = el A i j"
  by (simp add: el_def nth_copy)

lemma mult_copy_left: "mult (copy A) B = mult A B"
  by (rule mat4_eqI) (simp_all add: length_mult el_mult el_copy)

lemma mult_copy_right: "mult A (copy B) = mult A B"
  by (rule mat4_eqI) (simp_all add: length_mult el_mult el_copy)

lemma length_inv4: "length (inv4 M) = 16"
  by (simp add: inv4_def)

lemma el_inv4_rot: "i < 3 \<Longrightarrow> j < 3 \<Longrightarrow> el (inv4 M) i j = el M j i"
  by (auto simp: lt3 el_def inv4_def numeral_2_eq_2)

lemma el_inv4_trans: "i < 3 \<Longrightarrow> el (inv4 M) i 3 = - (\<Sum>k<3. el M k i * el M k 3)"
  by (auto simp: lt3 sum3 el_def inv4_def)

lemma el_inv4_bottom: "j < 4 \<Longrightarrow> el (inv4 M) 3 j = (if j = 3 then 1 else 0)"
  by (auto simp: lt4 el_def inv4_def)

lemma cols_orthonormalD:
  "cols_orthonormal M \<Longrightarrow> i < 3 \<Longrightarrow> j < 3 \<Longrightarrow>
     (\<Sum>k<3. el M k i * el M k j) = (if i = j then 1 else 0)"
  by (simp add: cols_orthonormal_def list_all_iff)

lemma rows_orthonormalD:
  "rows_orthonormal M \<Longrightarrow> i < 3 \<Longrightarrow> j < 3 \<Longrightarrow>
     (\<Sum>k<3. el M i k * el M j k) = (if i = j then 1 else 0)"
  by (simp add: rows_orthonormal_def list_all_iff)

lemma homogeneous_bottom:
  "homogeneous M \<Longrightarrow> j < 4 \<Longrightarrow> el M 3 j = (if j = 3 then 1 else 0)"
  by (auto simp: homogeneous_def lt4)

lemma inv4_left_inverse:
  assumes h: "homogeneous M" and c: "cols_orthonormal M"
  shows "mult (inv4 M) M = eye4"
proof (rule mat4_eqI)
  fix i j :: nat assume ij: "i < 4" "j < 4"
  show "el (mult (inv4 M) M) i j = el eye4 i j"
  proof (cases "i < 3")
    case i3: True
    have *: "el (mult (inv4 M) M) i j
        = (\<Sum>k<3. el M k i * el M k j) + el (inv4 M) i 3 * el M 3 j"
      using ij i3 by (simp add: el_mult sum4_split el_inv4_rot)
    show ?thesis
    proof (cases "j < 3")
      case True
      then show ?thesis using * i3 ij h c
        by (simp add: cols_orthonormalD homogeneous_bottom el_eye4)
    next
      case False
      then have j: "j = 3" using ij by simp
      show ?thesis using * i3 h unfolding j
        by (simp add: el_inv4_trans homogeneous_bottom el_eye4)
    qed
  next
    case False
    then have i: "i = 3" using ij by simp
    have "el (mult (inv4 M) M) 3 j = el M 3 j"
      using ij by (simp add: el_mult sum4 el_inv4_bottom)
    then show ?thesis using ij h unfolding i
      by (simp add: homogeneous_bottom el_eye4)
  qed
qed (simp_all add: length_mult length_eye4)

text \<open>
  Claim C7. For every buffer \<open>M\<close>, \<^verbatim>\<open>_inv\<close> returns the matrix whose rotation block is
  the transpose of the rotation block of \<open>M\<close>, whose translation is \<open>-(R\<^sup>T t)\<close> and whose
  bottom row is \<open>0 0 0 1\<close>; and for a rigid \<open>M\<close> the product of the result with \<open>M\<close> is
  the identity. Rigidity is a hypothesis of the second part only: nothing is checked.
\<close>

theorem inv4_rigid_inverse:
  "length (inv4 M) = 16
   \<and> (\<forall>i<3. \<forall>j<3. el (inv4 M) i j = el M j i)
   \<and> (\<forall>i<3. el (inv4 M) i 3 = - (\<Sum>k<3. el M k i * el M k 3))
   \<and> el (inv4 M) 3 0 = 0 \<and> el (inv4 M) 3 1 = 0 \<and> el (inv4 M) 3 2 = 0 \<and> el (inv4 M) 3 3 = 1
   \<and> (rigid M \<longrightarrow> mult (inv4 M) M = eye4)"
  by (simp add: length_inv4 el_inv4_rot el_inv4_trans el_inv4_bottom rigid_def inv4_left_inverse)

lemma rigid_example_pose: "rigid example_pose"
  by (simp add: example_pose_def rigid_def homogeneous_def cols_orthonormal_def
      rows_orthonormal_def el_def sum3 upt_3)

theorem inv4_rigid_inverse_witness:
  "rigid example_pose \<and> mult (inv4 example_pose) example_pose = eye4
   \<and> el (inv4 example_pose) 0 1 = el example_pose 1 0
   \<and> el (inv4 example_pose) 1 3 = - (\<Sum>k<3. el example_pose k 1 * el example_pose k 3)"
  using inv4_rigid_inverse [of example_pose] rigid_example_pose by simp

section \<open>Forward kinematics of a chain: proofs\<close>

lemma length_fkine_loop_cpp:
  "length current = 16 \<Longrightarrow> length (fkine_loop_cpp q current ets) = 16"
  by (induction ets arbitrary: current) (simp_all add: length_mult)

lemma mat_prod_snoc: "mult A (mat_prod (Ms @ [X])) = mult A (mat_prod (Ms @ [copy X]))"
  by (induction Ms arbitrary: A) (simp_all add: mult_eye4_right mult_copy_right mult_copy_left)

lemma fkine_loop_cpp_product:
  "mult (fkine_loop_cpp q current ets) X
     = mult current (mat_prod (map (\<lambda>et. ET_T et (q (jindex et))) ets @ [X]))"
proof (induction ets arbitrary: current)
  case Nil
  show ?case by (simp add: mult_eye4_right mult_copy_right)
next
  case (Cons et ets)
  show ?case by (simp add: Cons.IH mult_assoc4)
qed

lemma ETS_fkine_cpp_product: "ETS_fkine_cpp ets q base tool = chain_product ets q base tool"
proof -
  define cur where "cur = (case base of Some b \<Rightarrow> copy b | None \<Rightarrow> eye4)"
  define b' where "b' = (case base of Some b \<Rightarrow> b | None \<Rightarrow> eye4)"
  define Ts where "Ts = map (\<lambda>et. ET_T et (q (jindex et))) ets"
  have len: "length cur = 16"
    by (simp add: cur_def length_copy length_eye4 split: option.split)
  have cur: "mult cur Y = mult b' Y" for Y
    by (simp add: cur_def b'_def mult_copy_left split: option.split)
  have loop: "mult (fkine_loop_cpp q cur ets) X = mult b' (mat_prod (Ts @ [X]))" for X
    by (simp add: fkine_loop_cpp_product cur Ts_def)
  show ?thesis
  proof (cases tool)
    case None
    have "fkine_loop_cpp q cur ets = copy (fkine_loop_cpp q cur ets)"
      by (simp add: copy_id length_fkine_loop_cpp len)
    also have "\<dots> = mult (fkine_loop_cpp q cur ets) eye4"
      by (simp add: mult_eye4_right)
    also have "\<dots> = mult b' (mat_prod (Ts @ [eye4]))" by (rule loop)
    finally show ?thesis
      using None by (simp add: ETS_fkine_cpp_def chain_product_def cur_def b'_def Ts_def)
  next
    case (Some tm)
    then show ?thesis
      using loop [of tm] by (simp add: ETS_fkine_cpp_def chain_product_def cur_def b'_def Ts_def)
  qed
qed

lemma copy_zeros16: "copy zeros16 = zeros16"
  by (simp add: copy_id zeros16_def)

lemma mult_zeros16_left: "mult zeros16 B = zeros16"
proof (rule mat4_eqI)
  fix i j :: nat assume ij: "i < 4" "j < 4"
  then have z: "el zeros16 i k = 0" if "k < 4" for k
    using that by (simp add: el_def zeros16_def)
  have "el (mult zeros16 B) i j = 0" using ij by (simp add: el_mult z)
  also have "\<dots> = el zeros16 i j" using ij by (simp add: el_def zeros16_def)
  finally show "el (mult zeros16 B) i j = el zeros16 i j" .
qed (simp_all add: length_mult zeros16_def)

lemma fkine_loop_c_zero:
  "ets \<noteq> [] \<Longrightarrow> fkine_loop_c q zeros16 current ets = zeros16"
proof (induction ets arbitrary: current)
  case Nil
  then show ?case by simp
next
  case (Cons et ets)
  show ?case
  proof (cases ets)
    case Nil
    then show ?thesis by (simp add: copy_zeros16)
  next
    case (Cons a list)
    then show ?thesis using Cons.IH [of "copy zeros16"] by simp
  qed
qed

lemma ETS_fkine_c_zero: "ets \<noteq> [] \<Longrightarrow> ETS_fkine_c ets q base tool = zeros16"
  by (simp add: ETS_fkine_c_def fkine_loop_c_zero mult_zeros16_left copy_zeros16
      split: option.split)

lemma chain_product_static_eye: "chain_product [static_eye] q None None = eye4"
  by (simp add: chain_product_def static_eye_def ET_T_def mult_eye4_right mult_eye4_left
      mult_copy_right mult_copy_left copy_id length_eye4)

lemma eye4_neq_zeros16: "eye4 \<noteq> zeros16"
  by (simp add: eye4_def zeros16_def numeral_eq_Suc)

text \<open>
  Claim C8. In \<^verbatim>\<open>fknm.c\<close> the multiplication of the accumulator in the element loop is
  absent, so for every chain with at least one element \<^verbatim>\<open>_ETS_fkine\<close> writes the all-zero
  matrix, whatever \<open>q\<close>, the base and the tool are. The product of the specification is
  what \<^verbatim>\<open>methods.cpp\<close> returns, for every input; \<^verbatim>\<open>fknm.c\<close> does not return it for the
  chain made of the static identity.
\<close>

theorem ETS_fkine_c_writes_zero:
  "(ets \<noteq> [] \<longrightarrow> ETS_fkine_c ets q base tool = zeros16)
   \<and> ETS_fkine_cpp ets q base tool = chain_product ets q base tool
   \<and> ETS_fkine_c [static_eye] q None None \<noteq> chain_product [static_eye] q None None"
  by (simp add: ETS_fkine_c_zero ETS_fkine_cpp_product chain_product_static_eye
      eye4_neq_zeros16 [symmetric])

theorem ETS_fkine_c_writes_zero_witness:
  "[static_eye, static_eye] \<noteq> []
   \<and> ETS_fkine_c [static_eye, static_eye] (\<lambda>k. 1) (Some example_pose) (Some example_pose)
       = zeros16"
  using ETS_fkine_c_writes_zero
    [of "[static_eye, static_eye]" "\<lambda>k. 1" "Some example_pose" "Some example_pose"]
  by simp

text \<open>
  Claim C1, at the input where \<^verbatim>\<open>fknm.c\<close> breaks it. For the chain made of the static
  identity, with no base and no tool, the product \<open>base \<cdot> T(E\<^sub>1) \<cdot> tool\<close> is the identity, and
  \<^verbatim>\<open>_ETS_fkine\<close> of \<^verbatim>\<open>fknm.c\<close> writes the zero matrix; \<^verbatim>\<open>_ETS_fkine\<close> of
  \<^verbatim>\<open>methods.cpp\<close> writes the identity, and returns the product for every chain,
  configuration, base and tool.
\<close>

theorem ETS_fkine_c_misses_product:
  "chain_product [static_eye] zero_q None None = eye4
   \<and> ETS_fkine_c [static_eye] zero_q None None = zeros16
   \<and> ETS_fkine_cpp [static_eye] zero_q None None = eye4
   \<and> zeros16 \<noteq> eye4
   \<and> ETS_fkine_cpp ets q base tool = chain_product ets q base tool"
  by (simp add: ETS_fkine_c_zero ETS_fkine_cpp_product chain_product_static_eye
      eye4_neq_zeros16 [symmetric])

section \<open>Inverse kinematics iterator: proofs\<close>

lemma IK_loop_returns_guard_false:
  assumes ret: "IK_loop body s = Some r"
    and pres: "\<And>s. IK_guard s \<Longrightarrow> IK_guard (body s)"
  shows "\<not> IK_guard s"
proof -
  have "(\<forall>t. IK_guard t \<longrightarrow> IK_guard (body t)) \<longrightarrow> \<not> IK_guard s"
  proof (rule IK_loop.raw_induct
      [where P = "\<lambda>b s r. (\<forall>t. IK_guard t \<longrightarrow> IK_guard (b t)) \<longrightarrow> \<not> IK_guard s", OF _ ret])
    fix lp :: "(ik_state \<Rightarrow> ik_state) \<Rightarrow> ik_state \<Rightarrow> ik_state option"
      and b :: "ik_state \<Rightarrow> ik_state" and u v :: ik_state
    assume IH: "\<And>b' u' y. lp b' u' = Some y
        \<Longrightarrow> (\<forall>t. IK_guard t \<longrightarrow> IK_guard (b' t)) \<longrightarrow> \<not> IK_guard u'"
      and eq: "(if IK_guard u then lp b (b u) else Some u) = Some v"
    show "(\<forall>t. IK_guard t \<longrightarrow> IK_guard (b t)) \<longrightarrow> \<not> IK_guard u"
    proof (intro impI notI)
      assume p: "\<forall>t. IK_guard t \<longrightarrow> IK_guard (b t)" and g: "IK_guard u"
      from g eq have "lp b (b u) = Some v" by simp
      then have "(\<forall>t. IK_guard t \<longrightarrow> IK_guard (b t)) \<longrightarrow> \<not> IK_guard (b u)"
        by (rule IH)
      with p g show False by blast
    qed
  qed
  with pres show ?thesis by blast
qed

lemma IK_loop_diverges:
  assumes "\<And>s. IK_guard s \<Longrightarrow> IK_guard (body s)" and "IK_guard s"
  shows "IK_loop body s = None"
proof (cases "IK_loop body s")
  case None then show ?thesis .
next
  case (Some r)
  then have "\<not> IK_guard s" using assms(1) by (rule IK_loop_returns_guard_false)
  with assms(2) show ?thesis by simp
qed

lemma IK_body_c_keeps:
  "ik_q (IK_body_c ets Tep s) = ik_q s \<and> arrived (IK_body_c ets Tep s) = arrived s
   \<and> iter (IK_body_c ets Tep s) = iter s"
  by (simp add: IK_body_c_def Let_def)

lemma IK_body_cpp_keeps:
  "ik_q (IK_body_cpp Tep s) = ik_q s \<and> arrived (IK_body_cpp Tep s) = arrived s
   \<and> iter (IK_body_cpp Tep s) = iter s \<and> ik_Te (IK_body_cpp Tep s) = ik_Te s"
  by (simp add: IK_body_cpp_def)

lemma IK_guard_init: "IK_guard (IK_init q E0)"
  by (simp add: IK_guard_def IK_init_def)

lemma ETS_fkine_c_nil: "ETS_fkine_c [] q None None = eye4"
  by (simp add: ETS_fkine_c_def copy_id length_eye4)

lemma IK_body_c_pow:
  "ik_q ((IK_body_c ets Tep ^^ k) s) = ik_q s
   \<and> arrived ((IK_body_c ets Tep ^^ k) s) = arrived s
   \<and> iter ((IK_body_c ets Tep ^^ k) s) = iter s"
  by (induction k) (simp_all add: IK_body_c_keeps)

lemma IK_body_cpp_pow:
  "ik_q ((IK_body_cpp Tep ^^ k) s) = ik_q s
   \<and> arrived ((IK_body_cpp Tep ^^ k) s) = arrived s
   \<and> iter ((IK_body_cpp Tep ^^ k) s) = iter s
   \<and> ik_Te ((IK_body_cpp Tep ^^ k) s) = ik_Te s"
  by (induction k) (simp_all add: IK_body_cpp_keeps)

text \<open>
  Claim C2, as stated, fails on \<^verbatim>\<open>fknm.c\<close>: its loop body writes the forward kinematics
  into \<open>Te\<close>. For the empty chain the first round turns the zeroed \<open>Te\<close> into the
  identity.
\<close>

theorem IK_body_c_updates_Te:
  "ik_Te (IK_body_c [] eye4 (IK_init zero_q 0)) \<noteq> ik_Te (IK_init zero_q 0)"
  by (simp add: IK_body_c_def Let_def ETS_fkine_c_nil IK_init_def eye4_neq_zeros16)

text \<open>
  Claim C2, amended. In both files the loop body of \<^verbatim>\<open>_ETS_IK\<close> leaves \<open>q\<close>, \<open>arrived\<close>
  and \<open>iter\<close> as they are; \<open>Te\<close> is left as it is in \<^verbatim>\<open>methods.cpp\<close> and is set to the
  forward kinematics at the unchanged \<open>q\<close> in \<^verbatim>\<open>fknm.c\<close>, the same value after every
  round. So the guard \<open>arrived = 0 \<and> iter < 500\<close>, true at the start, is true after every
  number of rounds, and for every input the function does not return.
\<close>

theorem ETS_IK_never_returns:
  "ik_q (IK_body_c ets Tep s) = ik_q s \<and> arrived (IK_body_c ets Tep s) = arrived s
   \<and> iter (IK_body_c ets Tep s) = iter s
   \<and> ik_q (IK_body_cpp Tep s) = ik_q s \<and> arrived (IK_body_cpp Tep s) = arrived s
   \<and> iter (IK_body_cpp Tep s) = iter s \<and> ik_Te (IK_body_cpp Tep s) = ik_Te s
   \<and> ik_Te ((IK_body_c ets Tep ^^ Suc k) (IK_init q E0)) = ETS_fkine_c ets q None None
   \<and> IK_guard ((IK_body_c ets Tep ^^ k) (IK_init q E0))
   \<and> IK_guard ((IK_body_cpp Tep ^^ k) (IK_init q E0))
   \<and> ETS_IK_c ets n q Tep ret E0 = None
   \<and> ETS_IK_cpp ets n q Tep ret E0 = None"
proof -
  have c: "IK_guard s \<Longrightarrow> IK_guard (IK_body_c ets Tep s)" for s
    by (simp add: IK_guard_def IK_body_c_keeps)
  have cpp: "IK_guard s \<Longrightarrow> IK_guard (IK_body_cpp Tep s)" for s
    by (simp add: IK_guard_def IK_body_cpp_keeps)
  have 1: "IK_loop (IK_body_c ets Tep) (IK_init q E0) = None"
    by (rule IK_loop_diverges [OF c IK_guard_init])
  have 2: "IK_loop (IK_body_cpp Tep) (IK_init q E0) = None"
    by (rule IK_loop_diverges [OF cpp IK_guard_init])
  have 3: "ik_Te ((IK_body_c ets Tep ^^ Suc k) (IK_init q E0)) = ETS_fkine_c ets q None None"
    by (simp add: IK_body_c_def Let_def IK_body_c_pow) (simp add: IK_init_def)
  have 4: "IK_guard ((IK_body_c ets Tep ^^ k) (IK_init q E0))"
    using IK_guard_init [of q E0] by (simp add: IK_guard_def IK_body_c_pow)
  have 5: "IK_guard ((IK_body_cpp Tep ^^ k) (IK_init q E0))"
    using IK_guard_init [of q E0] by (simp add: IK_guard_def IK_body_cpp_pow)
  show ?thesis
    using 3 4 5 by (simp add: 1 2 IK_body_c_keeps IK_body_cpp_keeps ETS_IK_c_def ETS_IK_cpp_def)
qed

section \<open>Pose error: proofs\<close>

text \<open>
  Claim C5. For every pair of poses, \<^verbatim>\<open>_angle_axis\<close> called with the achieved pose and
  the target returns the pose error of the specification: the difference of the
  translations in rows 0 to 2, and in rows 3 to 5 the rotation error computed from
  \<open>R = target.rotation \<cdot> achieved.rotation\<^sup>T\<close> and \<open>li\<close> by the three cases on the norm of
  \<open>li\<close> and the trace of \<open>R\<close>.
\<close>

theorem angle_axis_is_poseError: "angle_axis achieved target = poseError achieved target"
  by (simp add: angle_axis_def poseError_def rot_err_matrix_def norm_n_def trace_n_def
      upt_9 sum3 el_def Let_def Suc_Suc_0)

section \<open>Hessian: proofs\<close>

lemma hidx_less:
  assumes "j < n" "r < 6" "i < n"
  shows "hidx n j r i < n * 6 * n"
proof -
  have "r * n + i < 6 * n"
  proof -
    have "r * n + i < r * n + n" using assms by simp
    also have "\<dots> = (r + 1) * n" by simp
    also have "\<dots> \<le> 6 * n" using assms by (intro mult_le_mono1) simp
    finally show ?thesis .
  qed
  then have "j * (6 * n) + (r * n + i) < j * (6 * n) + 6 * n" by simp
  also have "\<dots> = (j + 1) * (6 * n)" by simp
  also have "\<dots> \<le> n * (6 * n)" using assms by (intro mult_le_mono1) simp
  finally show ?thesis by (simp add: hidx_def ac_simps)
qed

lemma hidx_inj:
  assumes "r < 6" "i < n" "r' < 6" "i' < n"
  shows "hidx n j r i = hidx n j' r' i' \<longleftrightarrow> j = j' \<and> r = r' \<and> i = i'"
proof
  assume eq: "hidx n j r i = hidx n j' r' i'"
  have n: "0 < n" using assms by simp
  have a: "(r * n + i) mod n = i" "(r * n + i) div n = r" 
       "(r' * n + i') mod n = i'" "(r' * n + i') div n = r'" using assms by simp_all
  have lt: "r * n + i < 6 * n" "r' * n + i' < 6 * n"
  proof -
    have "r * n + i < (r + 1) * n" using assms by simp
    also have "\<dots> \<le> 6 * n" using assms by (intro mult_le_mono1) simp
    finally show "r * n + i < 6 * n" .
    have "r' * n + i' < (r' + 1) * n" using assms by simp
    also have "\<dots> \<le> 6 * n" using assms by (intro mult_le_mono1) simp
    finally show "r' * n + i' < 6 * n" .
  qed
  have e: "j * (6 * n) + (r * n + i) = j' * (6 * n) + (r' * n + i')"
    using eq by (simp add: hidx_def ac_simps)
  have "(j * (6 * n) + (r * n + i)) div (6 * n) = j" using lt n by simp
  moreover have "(j' * (6 * n) + (r' * n + i')) div (6 * n) = j'" using lt n by simp
  ultimately have jj: "j = j'" using e by simp
  then have "r * n + i = r' * n + i'" using e by simp
  then show "j = j' \<and> r = r' \<and> i = i'" using a jj by metis
qed simp

lemma hessian_body_nf:
  "hessian_body n J j i H =
     (let H = H[hidx n j 0 i := hess_direct n J j i 0];
          H = H[hidx n j 1 i := hess_direct n J j i 1];
          H = H[hidx n j 2 i := hess_direct n J j i 2];
          H = H[hidx n j 3 i := hess_direct n J j i 3];
          H = H[hidx n j 4 i := hess_direct n J j i 4];
          H = H[hidx n j 5 i := hess_direct n J j i 5]
      in if i \<noteq> j then
           (let H = H[hidx n i 0 j := H ! hidx n j 0 i];
                H = H[hidx n i 1 j := H ! hidx n j 1 i];
                H = H[hidx n i 2 j := H ! hidx n j 2 i];
                H = H[hidx n i 3 j := 0];
                H = H[hidx n i 4 j := 0];
                H = H[hidx n i 5 j := 0]
            in H)
         else H)"
  by (simp add: hessian_body_def cross_def hess_direct_def cross3_def Jang_def Jlin_def
      hidx_def Let_def algebra_simps)

lemma length_hessian_body: "length (hessian_body n J j i H) = length H"
  by (simp add: hessian_body_nf Let_def)

lemma length_write6: "length (write6 n j i v H) = length H"
  by (simp add: write6_def)

lemma write6_other:
  assumes "j < n" "i < n" "length H = n * 6 * n" "a < n" "c < n" "r < 6" "\<not> (a = j \<and> c = i)"
  shows "write6 n j i v H ! hidx n a r c = H ! hidx n a r c"
proof -
  have "hidx n j k i \<noteq> hidx n a r c" if "k < 6" for k
    using hidx_inj [OF that \<open>i < n\<close> \<open>r < 6\<close> \<open>c < n\<close>, of j a] assms(7) by auto
  then show ?thesis by (simp add: write6_def)
qed

lemma write6_same:
  assumes "j < n" "i < n" "length H = n * 6 * n" "r < 6"
  shows "write6 n j i v H ! hidx n j r i = v ! r"
proof -
  have ne: "hidx n j k i = hidx n j k' i \<longleftrightarrow> k = k'" if "k < 6" "k' < 6" for k k'
    using hidx_inj [OF that(1) \<open>i < n\<close> that(2) \<open>i < n\<close>, of j j] by simp
  have len: "hidx n j k i < length H" if "k < 6" for k
    using hidx_less [OF \<open>j < n\<close> that \<open>i < n\<close>] assms(3) by simp
  from \<open>r < 6\<close> consider "r = 0" | "r = 1" | "r = 2" | "r = 3" | "r = 4" | "r = 5"
    by (auto simp: lt6)
  then show ?thesis
    by cases (simp_all add: write6_def nth_list_update ne len)
qed

lemma hessian_body_write6:
  assumes "j < n" "i < n" "length H = n * 6 * n"
  shows "hessian_body n J j i H =
     (let H1 = write6 n j i [hess_direct n J j i 0, hess_direct n J j i 1, hess_direct n J j i 2,
                 hess_direct n J j i 3, hess_direct n J j i 4, hess_direct n J j i 5] H
      in if i \<noteq> j then
           write6 n i j [hess_direct n J j i 0, hess_direct n J j i 1, hess_direct n J j i 2,
             0, 0, 0] H1
         else H1)"
proof (cases "i = j")
  case True
  then show ?thesis by (simp add: hessian_body_nf Let_def write6_def)
next
  case False
  define v where "v = [hess_direct n J j i 0, hess_direct n J j i 1, hess_direct n J j i 2,
                 hess_direct n J j i 3, hess_direct n J j i 4, hess_direct n J j i 5]"
  define H1 where "H1 = write6 n j i v H"
  have ne: "hidx n i k j \<noteq> hidx n j k' i" if "k < 6" "k' < 6" for k k'
    using hidx_inj [OF that(1) \<open>j < n\<close> that(2) \<open>i < n\<close>, of i j] False by simp
  have rd: "H1 ! hidx n j k i = v ! k" if "k < 6" for k
    unfolding H1_def by (rule write6_same [OF assms that])
  have body: "hessian_body n J j i H =
      H1[hidx n i 0 j := H1 ! hidx n j 0 i,
         hidx n i 1 j := (H1[hidx n i 0 j := H1 ! hidx n j 0 i]) ! hidx n j 1 i,
         hidx n i 2 j := (H1[hidx n i 0 j := H1 ! hidx n j 0 i,
             hidx n i 1 j := (H1[hidx n i 0 j := H1 ! hidx n j 0 i]) ! hidx n j 1 i]) ! hidx n j 2 i,
         hidx n i 3 j := 0, hidx n i 4 j := 0, hidx n i 5 j := 0]"
    using False by (simp add: hessian_body_nf Let_def H1_def write6_def v_def)
  have "hessian_body n J j i H =
      H1[hidx n i 0 j := v ! 0, hidx n i 1 j := v ! 1, hidx n i 2 j := v ! 2,
         hidx n i 3 j := 0, hidx n i 4 j := 0, hidx n i 5 j := 0]"
    unfolding body by (simp add: ne rd)
  then show ?thesis using False by (simp add: write6_def H1_def v_def)
qed

lemma hessian_body_cell:
  assumes ji: "j \<le> i" "i < n" and len: "length H = n * 6 * n"
    and cell: "a < n" "c < n" "r < 6"
  shows "hessian_body n J j i H ! hidx n a r c =
     (if touches j i a c then hess_spec n J a r c else H ! hidx n a r c)"
proof -
  have jn: "j < n" using ji by simp
  define v where "v = [hess_direct n J j i 0, hess_direct n J j i 1, hess_direct n J j i 2,
                 hess_direct n J j i 3, hess_direct n J j i 4, hess_direct n J j i 5]"
  define w where "w = [hess_direct n J j i 0, hess_direct n J j i 1, hess_direct n J j i 2,
                 0, 0, 0]"
  define H1 where "H1 = write6 n j i v H"
  have len1: "length H1 = n * 6 * n" by (simp add: H1_def length_write6 len)
  have vr: "v ! r = hess_direct n J j i r"
    using cell(3) by (auto simp: lt6 v_def)
  have wr: "w ! r = (if r < 3 then hess_direct n J j i r else 0)"
    using cell(3) by (auto simp: lt6 w_def)
  have body: "hessian_body n J j i H = (if i \<noteq> j then write6 n i j w H1 else H1)"
    by (simp add: hessian_body_write6 [OF jn ji(2) len] Let_def H1_def v_def w_def)
  show ?thesis
  proof (cases "a = j \<and> c = i")
    case True
    have "hessian_body n J j i H ! hidx n j r i = v ! r"
    proof (cases "i = j")
      case True
      have "H1 ! hidx n j r i = v ! r"
        unfolding H1_def by (rule write6_same [OF jn ji(2) len cell(3)])
      moreover have "hessian_body n J j i H = H1" unfolding body using True by simp
      ultimately show ?thesis by simp
    next
      case False
      then have "hessian_body n J j i H ! hidx n j r i = H1 ! hidx n j r i"
        unfolding body using write6_other [OF ji(2) jn len1 jn ji(2) cell(3), of w] by simp
      then show ?thesis unfolding H1_def by (simp add: write6_same [OF jn ji(2) len cell(3)])
    qed
    then show ?thesis using True ji by (simp add: touches_def hess_spec_def vr)
  next
    case nd: False
    show ?thesis
    proof (cases "a = i \<and> c = j")
      case True
      with nd have ne: "i \<noteq> j" by auto
      then have lt: "j < i" using ji by simp
      have "hessian_body n J j i H ! hidx n i r j = w ! r"
        unfolding body using ne by (simp add: write6_same [OF ji(2) jn len1 cell(3)])
      then show ?thesis using True lt by (simp add: touches_def hess_spec_def wr)
    next
      case False
      have 1: "H1 ! hidx n a r c = H ! hidx n a r c"
        unfolding H1_def by (rule write6_other [OF jn ji(2) len cell nd])
      have 2: "write6 n i j w H1 ! hidx n a r c = H1 ! hidx n a r c"
        by (rule write6_other [OF ji(2) jn len1 cell False])
      have "\<not> touches j i a c" using nd False by (simp add: touches_def)
      moreover have "hessian_body n J j i H ! hidx n a r c = H ! hidx n a r c"
        by (simp add: body 1 2)
      ultimately show ?thesis by simp
    qed
  qed
qed

lemma fold_concat_map:
  "fold f (concat (map g xs)) H = fold (\<lambda>x. fold f (g x)) xs H"
  by (induction xs arbitrary: H) simp_all

lemma ETS_hessian_pairs:
  "ETS_hessian n J H = fold (\<lambda>(j, i). hessian_body n J j i) (hessian_pairs n) H"
  by (simp add: ETS_hessian_def hessian_pairs_def fold_concat_map fold_map comp_def)

lemma set_hessian_pairs: "set (hessian_pairs n) = {(j, i). j \<le> i \<and> i < n}"
proof -
  have "(a, b) \<in> set (hessian_pairs n) \<longleftrightarrow> a \<le> b \<and> b < n" for a b
  proof
    assume "(a, b) \<in> set (hessian_pairs n)"
    then show "a \<le> b \<and> b < n" by (auto simp: hessian_pairs_def)
  next
    assume ab: "a \<le> b \<and> b < n"
    then have "a \<in> {0..<n}" "(a, b) \<in> Pair a ` {a..<n}" by auto
    then show "(a, b) \<in> set (hessian_pairs n)" by (auto simp: hessian_pairs_def)
  qed
  then show ?thesis by auto
qed

lemma fold_hessian_body_length:
  "length (fold (\<lambda>(j, i). hessian_body n J j i) ps H) = length H"
  by (induction ps arbitrary: H) (auto simp: length_hessian_body)

lemma fold_hessian_body_cell:
  assumes "\<forall>(j, i) \<in> set ps. j \<le> i \<and> i < n" "length H = n * 6 * n"
    and "a < n" "c < n" "r < 6"
  shows "fold (\<lambda>(j, i). hessian_body n J j i) ps H ! hidx n a r c =
     (if \<exists>(j, i) \<in> set ps. touches j i a c then hess_spec n J a r c else H ! hidx n a r c)"
  using assms(1,2)
proof (induction ps arbitrary: H)
  case Nil
  show ?case by simp
next
  case (Cons p ps)
  obtain j i where p: "p = (j, i)" by (cases p)
  have ji: "j \<le> i" "i < n" using Cons.prems(1) p by auto
  have len: "length (hessian_body n J j i H) = n * 6 * n"
    using Cons.prems(2) by (simp add: length_hessian_body)
  have rest: "\<forall>(j, i) \<in> set ps. j \<le> i \<and> i < n" using Cons.prems(1) by simp
  have "fold (\<lambda>(j, i). hessian_body n J j i) (p # ps) H ! hidx n a r c =
      (if \<exists>(j, i) \<in> set ps. touches j i a c then hess_spec n J a r c
       else hessian_body n J j i H ! hidx n a r c)"
    using Cons.IH [OF rest len] by (simp add: p)
  also have "hessian_body n J j i H ! hidx n a r c =
      (if touches j i a c then hess_spec n J a r c else H ! hidx n a r c)"
    by (rule hessian_body_cell [OF ji Cons.prems(2) assms(3-5)])
  finally show ?case by (auto simp: p)
qed

lemma ETS_hessian_cell:
  assumes "length H = n * 6 * n" "a < n" "c < n" "r < 6"
  shows "Hcell n (ETS_hessian n J H) a r c = hess_spec n J a r c"
proof -
  have "\<exists>(j, i) \<in> set (hessian_pairs n). touches j i a c"
  proof (cases "a \<le> c")
    case True
    then have "(a, c) \<in> set (hessian_pairs n)" using assms by (simp add: set_hessian_pairs)
    moreover have "touches a c a c" by (simp add: touches_def)
    ultimately show ?thesis by blast
  next
    case False
    then have "(c, a) \<in> set (hessian_pairs n)" using assms by (simp add: set_hessian_pairs)
    moreover have "touches c a a c" by (simp add: touches_def)
    ultimately show ?thesis by blast
  qed
  moreover have "\<forall>(j, i) \<in> set (hessian_pairs n). j \<le> i \<and> i < n"
    by (simp add: set_hessian_pairs)
  ultimately show ?thesis
    using fold_hessian_body_cell [OF _ assms, of "hessian_pairs n" J]
    by (simp add: Hcell_def ETS_hessian_pairs)
qed

lemma cross3_self: "cross3 u u c = 0"
  by (simp add: cross3_def)

text \<open>
  Claim C4. For every \<open>n\<close> and Jacobian \<open>J\<close>, with \<open>H\<close> the buffer that \<^verbatim>\<open>_ETS_hessian\<close>
  has filled (an \<open>n x 6 x n\<close> buffer, whatever it held before): for every pair
  \<open>i \<ge> j\<close> the linear block \<open>H[j][0:3, i]\<close> is \<open>cross(J[3:6, j], J[0:3, i])\<close> and the angular
  block \<open>H[j][3:6, i]\<close> is \<open>cross(J[3:6, j], J[3:6, i])\<close>; for every \<open>i \<noteq> j\<close> the linear
  blocks \<open>H[i][0:3, j]\<close> and \<open>H[j][0:3, i]\<close> are equal; and the angular block of the
  mirrored entry, \<open>H[i][3:6, j]\<close> with \<open>i > j\<close>, is zero. Component \<open>c\<close> of a block is
  row \<open>c\<close>, respectively \<open>3 + c\<close>, of the slice.
\<close>

theorem ETS_hessian_blocks:
  assumes "length H = n * 6 * n" "i < n" "j < n" "c < 3"
  shows "(j \<le> i \<longrightarrow>
            Hcell n (ETS_hessian n J H) j c i = cross3 (Jang n J j) (Jlin n J i) c
          \<and> Hcell n (ETS_hessian n J H) j (3 + c) i = cross3 (Jang n J j) (Jang n J i) c)
     \<and> (i \<noteq> j \<longrightarrow> Hcell n (ETS_hessian n J H) i c j = Hcell n (ETS_hessian n J H) j c i)
     \<and> (j < i \<longrightarrow> Hcell n (ETS_hessian n J H) i (3 + c) j = 0)"
proof -
  have c6: "c < 6" "3 + c < 6" using assms by simp_all
  show ?thesis
    using assms(2-4)
    by (simp add: ETS_hessian_cell [OF assms(1)] c6 hess_spec_def hess_direct_def)
qed

theorem ETS_hessian_blocks_witness:
  "length example_H = 2 * 6 * 2
   \<and> Hcell 2 (ETS_hessian 2 example_J example_H) 0 0 1 = 10
   \<and> Hcell 2 (ETS_hessian 2 example_J example_H) 0 3 1 = - 2
   \<and> Hcell 2 (ETS_hessian 2 example_J example_H) 1 0 0 = 10
   \<and> Hcell 2 (ETS_hessian 2 example_J example_H) 1 3 0 = 0"
  using ETS_hessian_blocks [of example_H 2 1 0 0 example_J]
  by (simp add: example_H_def example_J_def cross3_def Jang_def Jlin_def)

text \<open>
  Claim C10. For every \<open>n \<ge> 1\<close>, Jacobian \<open>J\<close> and joint index \<open>j < n\<close>, the diagonal
  angular block \<open>H[j][3:6, j]\<close> of the Hessian is \<open>cross(J[3:6, j], J[3:6, j])\<close>, which is
  zero.
\<close>

theorem ETS_hessian_diagonal_angular_zero:
  assumes "length H = n * 6 * n" "j < n" "c < 3"
  shows "Hcell n (ETS_hessian n J H) j (3 + c) j = cross3 (Jang n J j) (Jang n J j) c
     \<and> cross3 (Jang n J j) (Jang n J j) c = 0
     \<and> Hcell n (ETS_hessian n J H) j (3 + c) j = 0"
proof -
  have c6: "3 + c < 6" using assms by simp
  show ?thesis
    by (simp add: ETS_hessian_cell [OF assms(1,2,2) c6] hess_spec_def hess_direct_def cross3_self)
qed

theorem ETS_hessian_diagonal_angular_zero_witness:
  "length example_H = 2 * 6 * 2 \<and> (1::nat) < 2 \<and> (2::nat) < 3
   \<and> Hcell 2 (ETS_hessian 2 example_J example_H) 1 (3 + 2) 1 = 0"
  using ETS_hessian_diagonal_angular_zero [of example_H 2 1 2 example_J]
  by (simp add: example_H_def)

section \<open>Kinematic tree: proofs\<close>

lemma set_shape_fields:
  "l_fk (set_shape i link) = l_fk link" "shape_base (set_shape i link) = shape_base link"
  "l_isjoint (set_shape i link) = l_isjoint link" "l_isflip (set_shape i link) = l_isflip link"
  "l_jindex (set_shape i link) = l_jindex link" "l_axis (set_shape i link) = l_axis link"
  "l_A (set_shape i link) = l_A link" "l_parent (set_shape i link) = l_parent link"
  "n_shapes (set_shape i link) = n_shapes link"
  "length (shape_wT (set_shape i link)) = length (shape_wT link)"
  "length (shape_sT (set_shape i link)) = length (shape_sT link)"
  "length (shape_sq (set_shape i link)) = length (shape_sq link)"
  by (simp_all add: set_shape_def Let_def)

lemma fold_set_shape_fields:
  "l_fk (fold set_shape ks link) = l_fk link"
  "shape_base (fold set_shape ks link) = shape_base link"
  "l_isjoint (fold set_shape ks link) = l_isjoint link"
  "l_isflip (fold set_shape ks link) = l_isflip link"
  "l_jindex (fold set_shape ks link) = l_jindex link"
  "l_axis (fold set_shape ks link) = l_axis link"
  "l_A (fold set_shape ks link) = l_A link"
  "l_parent (fold set_shape ks link) = l_parent link"
  "n_shapes (fold set_shape ks link) = n_shapes link"
  "length (shape_wT (fold set_shape ks link)) = length (shape_wT link)"
  "length (shape_sT (fold set_shape ks link)) = length (shape_sT link)"
  "length (shape_sq (fold set_shape ks link)) = length (shape_sq link)"
  by (induction ks arbitrary: link; simp add: set_shape_fields)+

lemma set_shape_cells:
  assumes "i < length (shape_wT link)" "i < length (shape_sT link)" "i < length (shape_sq link)"
  shows "shape_wT (set_shape k link) ! i = (if i = k then copy (l_fk link) else shape_wT link ! i)"
    and "shape_sT (set_shape k link) ! i =
          (if i = k then mult (l_fk link) (shape_base link ! i) else shape_sT link ! i)"
    and "shape_sq (set_shape k link) ! i =
          (if i = k then r2q (mult (l_fk link) (shape_base link ! i)) else shape_sq link ! i)"
  using assms by (auto simp: set_shape_def Let_def nth_list_update)

lemma fold_set_shape_cells:
  assumes "i < length (shape_wT link)" "i < length (shape_sT link)" "i < length (shape_sq link)"
    and "i < k"
  shows "shape_wT (fold set_shape [0..<k] link) ! i = copy (l_fk link)
     \<and> shape_sT (fold set_shape [0..<k] link) ! i = mult (l_fk link) (shape_base link ! i)
     \<and> shape_sq (fold set_shape [0..<k] link) ! i = r2q (mult (l_fk link) (shape_base link ! i))"
  using assms(4)
proof (induction k)
  case 0
  then show ?case by simp
next
  case (Suc k)
  let ?l = "fold set_shape [0..<k] link"
  have len: "i < length (shape_wT ?l)" "i < length (shape_sT ?l)" "i < length (shape_sq ?l)"
    using assms(1-3) by (simp_all add: fold_set_shape_fields)
  show ?case
  proof (cases "i = k")
    case True
    then show ?thesis
      using set_shape_cells [OF len, of k] by (simp add: fold_set_shape_fields)
  next
    case False
    then have "i < k" using Suc.prems by simp
    then show ?thesis
      using Suc.IH set_shape_cells [OF len, of k] False by simp
  qed
qed

lemma A_link_cong:
  "l_isjoint a = l_isjoint b \<Longrightarrow> l_isflip a = l_isflip b \<Longrightarrow> l_axis a = l_axis b
   \<Longrightarrow> l_A a = l_A b \<Longrightarrow> A_link a eta = A_link b eta"
  by (simp add: A_link_def)

lemma fkine_all_link_other: "k \<noteq> l \<Longrightarrow> fkine_all_link q base s l k = s k"
  by (simp add: fkine_all_link_def Let_def)

lemma fkine_all_link_fields:
  "l_isjoint (fkine_all_link q base s l k) = l_isjoint (s k)"
  "l_isflip (fkine_all_link q base s l k) = l_isflip (s k)"
  "l_jindex (fkine_all_link q base s l k) = l_jindex (s k)"
  "l_axis (fkine_all_link q base s l k) = l_axis (s k)"
  "l_A (fkine_all_link q base s l k) = l_A (s k)"
  "l_parent (fkine_all_link q base s l k) = l_parent (s k)"
  "n_shapes (fkine_all_link q base s l k) = n_shapes (s k)"
  "shape_base (fkine_all_link q base s l k) = shape_base (s k)"
  "length (shape_wT (fkine_all_link q base s l k)) = length (shape_wT (s k))"
  "length (shape_sT (fkine_all_link q base s l k)) = length (shape_sT (s k))"
  "length (shape_sq (fkine_all_link q base s l k)) = length (shape_sq (s k))"
  by (simp_all add: fkine_all_link_def Let_def fold_set_shape_fields)

lemma fkine_all_link_fk:
  assumes "l_parent (s l) \<noteq> Some l"
  shows "l_fk (fkine_all_link q base s l l) = (mult (case l_parent (s l) of Some p \<Rightarrow> l_fk (s p) | None \<Rightarrow> base) (local_T q (s l)))"
  using assms
  by (auto simp: fkine_all_link_def Let_def fold_set_shape_fields local_T_def
      split: option.split)

lemma fkine_all_link_shapes:
  assumes "l_parent (s l) \<noteq> Some l" "i < n_shapes (s l)"
    "i < length (shape_wT (s l))" "i < length (shape_sT (s l))" "i < length (shape_sq (s l))"
  shows "shape_wT (fkine_all_link q base s l l) ! i = (mult (case l_parent (s l) of Some p \<Rightarrow> l_fk (s p) | None \<Rightarrow> base) (local_T q (s l)))
     \<and> shape_sT (fkine_all_link q base s l l) ! i = mult ((mult (case l_parent (s l) of Some p \<Rightarrow> l_fk (s p) | None \<Rightarrow> base) (local_T q (s l)))) (shape_base (s l) ! i)
     \<and> shape_sq (fkine_all_link q base s l l) ! i
         = r2q (mult ((mult (case l_parent (s l) of Some p \<Rightarrow> l_fk (s p) | None \<Rightarrow> base) (local_T q (s l)))) (shape_base (s l) ! i))"
proof -
  define fk where "fk = (mult (case l_parent (s l) of Some p \<Rightarrow> l_fk (s p) | None \<Rightarrow> base) (local_T q (s l)))"
  define link where "link = (s l)\<lparr>l_fk := fk\<rparr>"
  have eq: "fkine_all_link q base s l l = fold set_shape [0..<n_shapes (s l)] link"
    using assms(1)
    by (auto simp: fkine_all_link_def Let_def link_def fk_def local_T_def
        split: option.split)
  have "i < length (shape_wT link)" "i < length (shape_sT link)" "i < length (shape_sq link)"
    using assms by (simp_all add: link_def)
  from fold_set_shape_cells [OF this assms(2)]
  show ?thesis
    by (simp add: eq link_def fk_def [symmetric]) (simp add: fk_def copy_id length_mult)
qed

lemma run_links_Nil: "run_links q base [] s = s"
  by (simp add: run_links_def)

lemma run_links_Cons: "run_links q base (l # ls) s = run_links q base ls (fkine_all_link q base s l)"
  by (simp add: run_links_def)

lemma run_links_append:
  "run_links q base (xs @ ys) s = run_links q base ys (run_links q base xs s)"
  by (simp add: run_links_def)

lemma run_links_other: "k \<notin> set ls \<Longrightarrow> run_links q base ls s k = s k"
  by (induction ls arbitrary: s) (simp_all add: run_links_Nil run_links_Cons fkine_all_link_other)

lemma run_links_fields:
  "l_isjoint (run_links q base ls s k) = l_isjoint (s k)
   \<and> l_isflip (run_links q base ls s k) = l_isflip (s k)
   \<and> l_jindex (run_links q base ls s k) = l_jindex (s k)
   \<and> l_axis (run_links q base ls s k) = l_axis (s k)
   \<and> l_A (run_links q base ls s k) = l_A (s k)
   \<and> l_parent (run_links q base ls s k) = l_parent (s k)
   \<and> n_shapes (run_links q base ls s k) = n_shapes (s k)
   \<and> shape_base (run_links q base ls s k) = shape_base (s k)
   \<and> length (shape_wT (run_links q base ls s k)) = length (shape_wT (s k))
   \<and> length (shape_sT (run_links q base ls s k)) = length (shape_sT (s k))
   \<and> length (shape_sq (run_links q base ls s k)) = length (shape_sq (s k))"
  by (induction ls arbitrary: s)
     (simp_all add: run_links_Nil run_links_Cons fkine_all_link_fields)

lemma local_T_cong:
  "l_isjoint a = l_isjoint b \<Longrightarrow> l_isflip a = l_isflip b \<Longrightarrow> l_axis a = l_axis b
   \<Longrightarrow> l_A a = l_A b \<Longrightarrow> l_jindex a = l_jindex b \<Longrightarrow> local_T q a = local_T q b"
  by (simp add: local_T_def A_link_def)

lemma local_T_run_links: "local_T q (run_links q base ls s k) = local_T q (s k)"
  by (rule local_T_cong) (simp_all add: run_links_fields)

lemma parent_before_child_nth:
  "parent_before_child s ls \<Longrightarrow> i < length ls \<Longrightarrow>
     (case l_parent (s (ls ! i)) of None \<Rightarrow> True | Some p \<Rightarrow> p \<notin> set (drop i ls))"
  by (simp add: parent_before_child_def list_all_iff)

lemma parent_before_childD:
  assumes "parent_before_child s (xs @ l # ys)" "l_parent (s l) = Some p"
  shows "p \<noteq> l" "p \<notin> set ys" "l \<notin> set ys" "l \<notin> set xs"
proof -
  have d: "distinct (xs @ l # ys)" using assms(1) by (simp add: parent_before_child_def)
  then show "l \<notin> set ys" "l \<notin> set xs" by auto
  have "length xs < length (xs @ l # ys)" by simp
  from parent_before_child_nth [OF assms(1) this]
  have "p \<notin> set (l # ys)" using assms(2) by simp
  then show "p \<noteq> l" "p \<notin> set ys" by auto
qed

lemma run_links_visit:
  assumes pbc: "parent_before_child s ls" and l: "l \<in> set ls"
  shows "\<exists>s1. run_links q base ls s l = fkine_all_link q base s1 l l
      \<and> l_parent (s1 l) = l_parent (s l) \<and> local_T q (s1 l) = local_T q (s l)
      \<and> n_shapes (s1 l) = n_shapes (s l) \<and> shape_base (s1 l) = shape_base (s l)
      \<and> length (shape_wT (s1 l)) = length (shape_wT (s l))
      \<and> length (shape_sT (s1 l)) = length (shape_sT (s l))
      \<and> length (shape_sq (s1 l)) = length (shape_sq (s l))
      \<and> (\<forall>p. l_parent (s l) = Some p \<longrightarrow> p \<noteq> l \<and> l_fk (s1 p) = l_fk (run_links q base ls s p))"
proof -
  obtain xs ys where ls: "ls = xs @ l # ys" using l by (meson split_list)
  define s1 where "s1 = run_links q base xs s"
  have d: "distinct (xs @ l # ys)" using pbc by (simp add: parent_before_child_def ls)
  then have lys: "l \<notin> set ys" by auto
  have run: "run_links q base ls s = run_links q base ys (fkine_all_link q base s1 l)"
    by (simp add: ls run_links_append run_links_Cons s1_def)
  have 1: "run_links q base ls s l = fkine_all_link q base s1 l l"
    by (simp add: run run_links_other lys)
  have 2: "l_fk (s1 p) = l_fk (run_links q base ls s p) \<and> p \<noteq> l" if "l_parent (s l) = Some p" for p
  proof -
    have "p \<noteq> l" "p \<notin> set ys" using parent_before_childD [OF pbc [unfolded ls] that] by auto
    then show ?thesis by (simp add: run run_links_other fkine_all_link_other)
  qed
  show ?thesis
    using 1 2 by (intro exI [of _ s1]) (auto simp: s1_def run_links_fields local_T_run_links)
qed

lemma run_links_fk:
  assumes pbc: "parent_before_child s ls" and l: "l \<in> set ls"
  shows "l_fk (run_links q base ls s l) =
     mult (case l_parent (s l) of Some p \<Rightarrow> l_fk (run_links q base ls s p) | None \<Rightarrow> base)
       (local_T q (s l))"
proof -
  obtain s1 where s1: "run_links q base ls s l = fkine_all_link q base s1 l l"
      "l_parent (s1 l) = l_parent (s l)" "local_T q (s1 l) = local_T q (s l)"
      "\<forall>p. l_parent (s l) = Some p \<longrightarrow> p \<noteq> l \<and> l_fk (s1 p) = l_fk (run_links q base ls s p)"
    using run_links_visit [OF pbc l, of q base] by blast
  have ns: "l_parent (s1 l) \<noteq> Some l" using s1(2,4) by auto
  have "l_fk (fkine_all_link q base s1 l l) =
      mult (case l_parent (s1 l) of Some p \<Rightarrow> l_fk (s1 p) | None \<Rightarrow> base) (local_T q (s1 l))"
    using ns by (rule fkine_all_link_fk)
  then show ?thesis
    unfolding s1(1) using s1(2,3,4) by (auto split: option.split)
qed

lemma run_links_shapes:
  assumes pbc: "parent_before_child s ls" and l: "l \<in> set ls"
    and i: "i < n_shapes (s l)" "i < length (shape_wT (s l))" "i < length (shape_sT (s l))"
      "i < length (shape_sq (s l))"
  shows "shape_wT (run_links q base ls s l) ! i = l_fk (run_links q base ls s l)
     \<and> shape_sT (run_links q base ls s l) ! i
         = mult (l_fk (run_links q base ls s l)) (shape_base (s l) ! i)
     \<and> shape_sq (run_links q base ls s l) ! i = r2q (shape_sT (run_links q base ls s l) ! i)"
proof -
  obtain s1 where s1: "run_links q base ls s l = fkine_all_link q base s1 l l"
      "l_parent (s1 l) = l_parent (s l)"
      "n_shapes (s1 l) = n_shapes (s l)" "shape_base (s1 l) = shape_base (s l)"
      "length (shape_wT (s1 l)) = length (shape_wT (s l))"
      "length (shape_sT (s1 l)) = length (shape_sT (s l))"
      "length (shape_sq (s1 l)) = length (shape_sq (s l))"
      "\<forall>p. l_parent (s l) = Some p \<longrightarrow> p \<noteq> l \<and> l_fk (s1 p) = l_fk (run_links q base ls s p)"
    using run_links_visit [OF pbc l, of q base] by blast
  have ns: "l_parent (s1 l) \<noteq> Some l" using s1(2,8) by auto
  have i1: "i < n_shapes (s1 l)" "i < length (shape_wT (s1 l))" "i < length (shape_sT (s1 l))"
      "i < length (shape_sq (s1 l))" using i s1 by simp_all
  have fk: "l_fk (fkine_all_link q base s1 l l) =
      mult (case l_parent (s1 l) of Some p \<Rightarrow> l_fk (s1 p) | None \<Rightarrow> base) (local_T q (s1 l))"
    using ns by (rule fkine_all_link_fk)
  show ?thesis
    unfolding s1(1) fk
    using fkine_all_link_shapes [where s = s1 and l = l and i = i and q = q and base = base, OF ns i1]
    by (simp add: s1(4))
qed

lemma run_links_propagates:
  assumes "parent_before_child s ls" "l \<in> set ls"
  shows "\<exists>s'. fkine_all (length ls) ls q base s = Inr s'
     \<and> l_fk (s' l) = mult (case l_parent (s l) of Some p \<Rightarrow> l_fk (s' p) | None \<Rightarrow> base)
                        (local_T q (s l))
     \<and> (\<forall>i. i < n_shapes (s l) \<and> i < length (shape_wT (s l)) \<and> i < length (shape_sT (s l))
            \<and> i < length (shape_sq (s l)) \<longrightarrow>
            shape_wT (s' l) ! i = l_fk (s' l)
          \<and> shape_sT (s' l) ! i = mult (l_fk (s' l)) (shape_base (s l) ! i)
          \<and> shape_sq (s' l) ! i = r2q (shape_sT (s' l) ! i))
     \<and> (ls = [r, l] \<and> l_parent (s r) = None \<and> l_parent (s l) = Some r \<longrightarrow>
          l_fk (s' l) = mult (mult base (local_T q (s r))) (local_T q (s l)))"
proof -
  let ?s' = "run_links q base ls s"
  have 1: "fkine_all (length ls) ls q base s = Inr ?s'" by (simp add: fkine_all_def)
  have 2: "l_fk (?s' l) = mult (case l_parent (s l) of Some p \<Rightarrow> l_fk (?s' p) | None \<Rightarrow> base)
                        (local_T q (s l))"
    by (rule run_links_fk [OF assms])
  have 3: "l_fk (?s' l) = mult (mult base (local_T q (s r))) (local_T q (s l))"
    if "ls = [r, l]" "l_parent (s r) = None" "l_parent (s l) = Some r"
  proof -
    have "r \<in> set ls" using that by simp
    from run_links_fk [OF assms(1) this, of q base]
    have "l_fk (?s' r) = mult base (local_T q (s r))" using that by simp
    then show ?thesis using 2 that by simp
  qed
  have 4: "shape_wT (?s' l) ! i = l_fk (?s' l)
          \<and> shape_sT (?s' l) ! i = mult (l_fk (?s' l)) (shape_base (s l) ! i)
          \<and> shape_sq (?s' l) ! i = r2q (shape_sT (?s' l) ! i)"
    if "i < n_shapes (s l) \<and> i < length (shape_wT (s l)) \<and> i < length (shape_sT (s l))
            \<and> i < length (shape_sq (s l))" for i
    using that run_links_shapes [OF assms, of i q base] by blast
  show ?thesis
  proof (intro exI [of _ ?s'] conjI allI impI)
    show "fkine_all (length ls) ls q base s = Inr ?s'" by (rule 1)
    show "l_fk (?s' l) = mult (case l_parent (s l) of Some p \<Rightarrow> l_fk (?s' p) | None \<Rightarrow> base)
                        (local_T q (s l))" by (rule 2)
    show "l_fk (?s' l) = mult (mult base (local_T q (s r))) (local_T q (s l))"
      if "ls = [r, l] \<and> l_parent (s r) = None \<and> l_parent (s l) = Some r"
      by (rule 3) (use that in simp_all)
  next
    fix i
    assume "i < n_shapes (s l) \<and> i < length (shape_wT (s l)) \<and> i < length (shape_sT (s l))
            \<and> i < length (shape_sq (s l))"
    from 4 [OF this]
    show "shape_wT (?s' l) ! i = l_fk (?s' l)"
      "shape_sT (?s' l) ! i = mult (l_fk (?s' l)) (shape_base (s l) ! i)"
      "shape_sq (?s' l) ! i = r2q (shape_sT (?s' l) ! i)" by simp_all
  qed
qed

lemma pbc_example: "parent_before_child example_links [0, 1]"
  by (simp add: parent_before_child_def example_links_def upt_rec)

lemma local_T_ET_rule:
  "local_T q link =
     (if l_isjoint link then mult (l_A link) (ET_rule_local q link) else ET_rule_local q link)"
  by (simp add: local_T_def A_link_def ET_rule_local_def link_as_ET_def ET_T_def Let_def)

lemma fk_root_example:
  "l_fk (run_links zero_q eye4 [0, 1] example_links 0) = example_pose"
proof -
  have "l_fk (run_links zero_q eye4 [0, 1] example_links 0)
      = mult eye4 (local_T zero_q (example_links 0))"
    using run_links_fk [OF pbc_example, of 0 zero_q eye4] by (simp add: example_links_def)
  also have "\<dots> = example_pose"
    by (simp add: local_T_def A_link_def example_links_def mult_eye4_left copy_def upt_16
        example_pose_def)
  finally show ?thesis .
qed

lemma fk_child_example:
  "l_fk (run_links zero_q eye4 [0, 1] example_links 1)
     = [- 1, 0, 0, - 1,  0, - 1, 0, 3,  0, 0, 1, 6,  0, 0, 0, 1]"
proof -
  have "l_fk (run_links zero_q eye4 [0, 1] example_links 1)
      = mult (l_fk (run_links zero_q eye4 [0, 1] example_links 0))
          (local_T zero_q (example_links 1))"
    using run_links_fk [OF pbc_example, of 1 zero_q eye4] by (simp add: example_links_def)
  also have "\<dots> = [- 1, 0, 0, - 1,  0, - 1, 0, 3,  0, 0, 1, 6,  0, 0, 0, 1]"
    unfolding fk_root_example
    by (simp add: local_T_def A_link_def example_links_def zero_q_def tx_def mult_cells
        example_pose_def)
  finally show ?thesis .
qed

lemma ET_rule_child_example:
  "mult (l_fk (run_links zero_q eye4 [0, 1] example_links 0))
      (ET_rule_local zero_q (example_links 1)) = example_pose"
  unfolding fk_root_example
  by (simp add: ET_rule_local_def link_as_ET_def ET_T_def example_links_def zero_q_def tx_def
      mult_cells example_pose_def)

text \<open>
  Claim C6, as stated, fails for a joint link: its local transform is not the one the
  rule for chain elements gives. In the instance the child is a joint along \<open>x\<close> with the
  static part \<open>A\<close> a rigid pose other than the identity; at \<open>q = 0\<close> the rule for chain
  elements gives the identity, and the world pose that \<^verbatim>\<open>fkine_all\<close> leaves in the child
  is not the world pose of its parent times the identity.
\<close>

theorem fkine_all_joint_local_not_ET_rule:
  "fkine_all 2 [0, 1] zero_q eye4 example_links
     = Inr (run_links zero_q eye4 [0, 1] example_links)
   \<and> l_parent (example_links 1) = Some 0
   \<and> l_fk (run_links zero_q eye4 [0, 1] example_links 1)
       \<noteq> mult (l_fk (run_links zero_q eye4 [0, 1] example_links 0))
            (ET_rule_local zero_q (example_links 1))"
  unfolding fk_child_example ET_rule_child_example
  by (simp add: fkine_all_def example_links_def example_pose_def)

text \<open>
  Claim C6, amended. \<^verbatim>\<open>fkine_all\<close>, run over links in parent-before-child order, returns
  normally and leaves in every visited link \<open>l\<close> the world pose \<open>parent.fk \<cdot> local\<close> when the
  link has a parent and \<open>base \<cdot> local\<close> when it is a root, where \<open>local\<close> is the transform
  that \<^verbatim>\<open>A\<close> computes at \<open>q[jindex]\<close>: for a static link the transform of the rule for chain
  elements, for a joint link the static part \<open>A\<close> of the link times that transform. For
  every shape of the link it leaves the world transform equal to the world pose of the
  link, the offset pose equal to \<open>link.fk \<cdot> shape.base\<close>, and the quaternion \<^verbatim>\<open>_r2q\<close>
  extracts from that offset pose. On the two-link chain of a root \<open>r\<close> and its child \<open>l\<close>
  the world pose of the child is \<open>base \<cdot> rootLocal \<cdot> childLocal\<close>.
\<close>

theorem fkine_all_propagates:
  assumes "parent_before_child s ls" "l \<in> set ls"
  shows "(\<exists>s'. fkine_all (length ls) ls q base s = Inr s'
     \<and> l_fk (s' l) = mult (case l_parent (s l) of Some p \<Rightarrow> l_fk (s' p) | None \<Rightarrow> base)
                        (local_T q (s l))
     \<and> (\<forall>i. i < n_shapes (s l) \<and> i < length (shape_wT (s l)) \<and> i < length (shape_sT (s l))
            \<and> i < length (shape_sq (s l)) \<longrightarrow>
            shape_wT (s' l) ! i = l_fk (s' l)
          \<and> shape_sT (s' l) ! i = mult (l_fk (s' l)) (shape_base (s l) ! i)
          \<and> shape_sq (s' l) ! i = r2q (shape_sT (s' l) ! i))
     \<and> (ls = [r, l] \<and> l_parent (s r) = None \<and> l_parent (s l) = Some r \<longrightarrow>
          l_fk (s' l) = mult (mult base (local_T q (s r))) (local_T q (s l))))
   \<and> local_T q (s l) =
       (if l_isjoint (s l) then mult (l_A (s l)) (ET_rule_local q (s l))
        else ET_rule_local q (s l))"
  using run_links_propagates [OF assms, of q base r] local_T_ET_rule [of q "s l"] by blast

theorem fkine_all_propagates_witness:
  "parent_before_child example_links [0, 1] \<and> (1::nat) \<in> set [0, 1]
   \<and> (\<exists>s'. fkine_all 2 [0, 1] (\<lambda>k. 2) eye4 example_links = Inr s'
        \<and> l_fk (s' 1) = mult (mult eye4 (local_T (\<lambda>k. 2) (example_links 0)))
                            (local_T (\<lambda>k. 2) (example_links 1))
        \<and> shape_wT (s' 1) ! 0 = l_fk (s' 1)
        \<and> shape_sT (s' 1) ! 0 = mult (l_fk (s' 1)) example_pose
        \<and> shape_sq (s' 1) ! 0 = r2q (shape_sT (s' 1) ! 0))"
proof -
  have pbc: "parent_before_child example_links [0, 1]" by (rule pbc_example)
  have mem: "(1::nat) \<in> set [0, 1]" by simp
  from fkine_all_propagates [OF pbc mem, of "\<lambda>k. 2" eye4 0]
  obtain s' where s': "fkine_all (length [0, 1::nat]) [0, 1] (\<lambda>k. 2) eye4 example_links = Inr s'"
    "l_fk (s' 1) = mult (mult eye4 (local_T (\<lambda>k. 2) (example_links 0)))
                            (local_T (\<lambda>k. 2) (example_links 1))"
    "shape_wT (s' 1) ! 0 = l_fk (s' 1)"
    "shape_sT (s' 1) ! 0 = mult (l_fk (s' 1)) example_pose"
    "shape_sq (s' 1) ! 0 = r2q (shape_sT (s' 1) ! 0)"
    by (auto simp: example_links_def)
  then show ?thesis using pbc by (auto simp: numeral_2_eq_2)
qed

section \<open>The tool in the base-frame Jacobian: proofs\<close>



lemma fkine_loop_cpp_snoc:
  "fkine_loop_cpp q U (ets @ [e]) = mult (fkine_loop_cpp q U ets) (ET_T e (q (jindex e)))"
  by (induction ets arbitrary: U) simp_all


lemma ETS_fkine_cpp_tool:
  "ETS_fkine_cpp ets q None (Some tm) = mult (ETS_fkine_cpp ets q None None) tm"
  by (simp add: ETS_fkine_cpp_def)





section \<open>Relating the two Jacobians: proofs\<close>

lemma jacob0_loop_cols:
  "jacob0_loop T n q None ets (U, j, J) =
     (fkine_loop_cpp q U ets, j + int (length (cols0 T q U ets)), write_cols n j (cols0 T q U ets) J)"
  by (induction ets arbitrary: U j J) (simp_all add: Let_def elem_def)

lemma jacobe_loop_cols:
  "snd (snd (jacobe_loop n q ets (U, j, J))) = write_cols_down n j (colse q U ets) J"
  by (induction ets arbitrary: U j J) (simp_all add: Let_def elem_def)

lemma length_cols0: "length (cols0 T q U ets) = n_joints ets"
  by (induction ets arbitrary: U) (simp_all add: Let_def n_joints_def)

lemma length_colse: "length (colse q U ets) = n_joints ets"
  by (induction ets arbitrary: U) (simp_all add: Let_def n_joints_def)

lemma length_colsE: "length (colsE q ets) = n_joints ets"
  by (induction ets) (simp_all add: Let_def n_joints_def)

lemma colse_append:
  "colse q U (xs @ ys) = colse q U xs @ colse q (fold (\<lambda>et U. mult (elem q et) U) xs U) ys"
  by (induction xs arbitrary: U) simp_all

lemma colse_rev: "colse q eye4 (rev ets) = rev (colsE q ets)"
  by (induction ets) (simp_all add: colse_append suffix_pose_def foldr_conv_fold)

lemma length_jacob0_col: "length (jacob0_col a U V) = 6"
  by (cases a) simp_all

lemma length_jacobe_col: "length (jacobe_col a U) = 6"
  by (cases a) simp_all

lemma cidx_less:
  assumes "r < 6" "k < N"
  shows "cidx N r k < 6 * N"
proof -
  have "r * N + k < (r + 1) * N" using assms by simp
  also have "\<dots> \<le> 6 * N" using assms by (intro mult_le_mono1) simp
  finally show ?thesis by (simp add: cidx_def)
qed

lemma cidx_inj:
  assumes "k < N" "k' < N"
  shows "cidx N r k = cidx N r' k' \<longleftrightarrow> r = r' \<and> k = k'"
proof
  assume eq: "cidx N r k = cidx N r' k'"
  have "(r * N + k) div N = r" "(r' * N + k') div N = r'"
    "(r * N + k) mod N = k" "(r' * N + k') mod N = k'" using assms by simp_all
  then show "r = r' \<and> k = k'" using eq unfolding cidx_def by metis
qed simp

lemma set_col_nat:
  "set_col (int N) (int k) c J =
     J[cidx N 0 k := c ! 0, cidx N 1 k := c ! 1, cidx N 2 k := c ! 2,
       cidx N 3 k := c ! 3, cidx N 4 k := c ! 4, cidx N 5 k := c ! 5]"
proof -
  have "nat (int r * int N + int k) = cidx N r k" for r
    by (simp add: nat_add_distrib nat_mult_distrib cidx_def)
  from this [of 0] this [of 1] this [of 2] this [of 3] this [of 4] this [of 5]
  show ?thesis by (simp add: set_col_def upd_def)
qed

lemma length_set_col: "length (set_col n j c J) = length J"
  by (simp add: set_col_def upd_def)

lemma set_col_cell:
  assumes "k < N" "k' < N" "r < 6" "length J = 6 * N"
  shows "set_col (int N) (int k) c J ! cidx N r k' = (if k' = k then c ! r else J ! cidx N r k')"
proof -
  have ne: "cidx N s k = cidx N r k' \<longleftrightarrow> s = r \<and> k = k'" for s
    by (rule cidx_inj [OF assms(1,2)])
  have ne': "cidx N s k = cidx N s' k \<longleftrightarrow> s = s'" for s s'
    using cidx_inj [OF assms(1,1)] by simp
  have len: "cidx N s k < length J" if "s < 6" for s
    using cidx_less [OF that assms(1)] assms(4) by simp
  show ?thesis
  proof (cases "k' = k")
    case False
    then show ?thesis by (simp add: set_col_nat ne)
  next
    case True
    from \<open>r < 6\<close> consider "r = 0" | "r = 1" | "r = 2" | "r = 3" | "r = 4" | "r = 5"
      by (auto simp: lt6)
    then show ?thesis
      using len [of 0] len [of 1] len [of 2] len [of 3] len [of 4] len [of 5]
      by cases (simp_all add: set_col_nat True nth_list_update ne')
  qed
qed

lemma length_write_cols: "length (write_cols n j cs J) = length J"
  by (induction cs arbitrary: j J) (simp_all add: length_set_col)

lemma length_write_cols_down: "length (write_cols_down n j cs J) = length J"
  by (induction cs arbitrary: j J) (simp_all add: length_set_col)

lemma write_cols_cell:
  assumes "j + length cs \<le> N" "length J = 6 * N" "r < 6" "k < N"
  shows "write_cols (int N) (int j) cs J ! cidx N r k =
     (if j \<le> k \<and> k < j + length cs then cs ! (k - j) ! r else J ! cidx N r k)"
  using assms(1,2)
proof (induction cs arbitrary: j J)
  case Nil
  show ?case by simp
next
  case (Cons c cs)
  have j: "j < N" using Cons.prems by simp
  have len: "length (set_col (int N) (int j) c J) = 6 * N"
    using Cons.prems by (simp add: length_set_col)
  have "write_cols (int N) (int j) (c # cs) J ! cidx N r k =
      write_cols (int N) (int (Suc j)) cs (set_col (int N) (int j) c J) ! cidx N r k"
    by (simp add: add.commute)
  also have "\<dots> = (if Suc j \<le> k \<and> k < Suc j + length cs then cs ! (k - Suc j) ! r
      else set_col (int N) (int j) c J ! cidx N r k)"
    using Cons.prems by (intro Cons.IH len) simp
  also have "set_col (int N) (int j) c J ! cidx N r k = (if k = j then c ! r else J ! cidx N r k)"
    by (rule set_col_cell [OF j assms(4,3) Cons.prems(2)])
  finally show ?case by (auto simp: nth_Cons')
qed

lemma write_cols_down_cell:
  assumes "length cs \<le> Suc j" "j < N" "length J = 6 * N" "r < 6" "k < N"
  shows "write_cols_down (int N) (int j) cs J ! cidx N r k =
     (if k \<le> j \<and> j < k + length cs then cs ! (j - k) ! r else J ! cidx N r k)"
  using assms(1,2,3)
proof (induction cs arbitrary: j J)
  case Nil
  show ?case by simp
next
  case (Cons c cs)
  have len: "length (set_col (int N) (int j) c J) = 6 * N"
    using Cons.prems by (simp add: length_set_col)
  have cell: "set_col (int N) (int j) c J ! cidx N r k = (if k = j then c ! r else J ! cidx N r k)"
    by (rule set_col_cell [OF Cons.prems(2) assms(5,4) Cons.prems(3)])
  show ?case
  proof (cases cs)
    case Nil
    then show ?thesis using cell by (auto simp: nth_Cons')
  next
    case (Cons c' cs')
    then obtain j' where j': "j = Suc j'" using Cons.prems(1) by (cases j) simp_all
    have "write_cols_down (int N) (int j) (c # cs) J ! cidx N r k =
        write_cols_down (int N) (int j') cs (set_col (int N) (int j) c J) ! cidx N r k"
      by (simp add: j')
    also have "\<dots> = (if k \<le> j' \<and> j' < k + length cs then cs ! (j' - k) ! r
        else set_col (int N) (int j) c J ! cidx N r k)"
      using Cons.prems j' by (intro Cons.IH len) simp_all
    finally show ?thesis using cell j' by (auto simp: nth_Cons' Suc_diff_le)
  qed
qed

lemma length_flat: "length (flat N cs) = 6 * N"
  by (simp add: flat_def)

lemma flat_decomp:
  assumes "p < 6 * N"
  shows "p div N < 6" "p mod N < N" "cidx N (p div N) (p mod N) = p"
proof -
  have N: "0 < N" using assms by (cases N) simp_all
  show "p mod N < N" using N by simp
  show "p div N < 6" using assms N by (simp add: less_mult_imp_div_less mult.commute)
  show "cidx N (p div N) (p mod N) = p" by (simp add: cidx_def)
qed

lemma write_cols_flat:
  assumes "length cs = N" "length J = 6 * N"
  shows "write_cols (int N) 0 cs J = flat N cs"
proof (rule nth_equalityI)
  show "length (write_cols (int N) 0 cs J) = length (flat N cs)"
    by (simp add: length_write_cols length_flat assms)
next
  fix p assume "p < length (write_cols (int N) 0 cs J)"
  then have p: "p < 6 * N" by (simp add: length_write_cols assms)
  note d = flat_decomp [OF p]
  have "write_cols (int N) (int 0) cs J ! cidx N (p div N) (p mod N) = cs ! (p mod N) ! (p div N)"
    using write_cols_cell [of 0 cs N J "p div N" "p mod N"] assms d by simp
  then show "write_cols (int N) 0 cs J ! p = flat N cs ! p"
    using p by (simp add: d flat_def)
qed

lemma write_cols_down_flat:
  assumes "length cs = N" "length J = 6 * N"
  shows "write_cols_down (int N) (int N - 1) cs J = flat N (rev cs)"
proof (cases N)
  case 0
  then show ?thesis using assms by (simp add: flat_def)
next
  case (Suc M)
  have j: "int N - 1 = int M" using Suc by simp
  show ?thesis
  proof (rule nth_equalityI)
    show "length (write_cols_down (int N) (int N - 1) cs J) = length (flat N (rev cs))"
      by (simp add: length_write_cols_down length_flat assms)
  next
    fix p assume "p < length (write_cols_down (int N) (int N - 1) cs J)"
    then have p: "p < 6 * N" by (simp add: length_write_cols_down assms)
    note d = flat_decomp [OF p]
    have "write_cols_down (int N) (int M) cs J ! cidx N (p div N) (p mod N)
        = cs ! (M - p mod N) ! (p div N)"
      using write_cols_down_cell [of cs M N J "p div N" "p mod N"] assms d Suc by auto
    moreover have "rev cs ! (p mod N) = cs ! (M - p mod N)"
      using d(2) assms Suc by (simp add: rev_nth)
    ultimately show "write_cols_down (int N) (int N - 1) cs J ! p = flat N (rev cs) ! p"
      using p by (simp add: d flat_def j)
  qed
qed

lemma apply6_flat:
  assumes "length cs = N"
  shows "apply6 X N (flat N cs) = flat N (map (ap6 X) cs)"
proof (rule nth_equalityI)
  show "length (apply6 X N (flat N cs)) = length (flat N (map (ap6 X) cs))"
    by (simp add: apply6_def length_flat)
next
  fix p assume "p < length (apply6 X N (flat N cs))"
  then have p: "p < 6 * N" by (simp add: apply6_def)
  note d = flat_decomp [OF p]
  have N: "0 < N" using d(2) by simp
  have cell: "flat N cs ! (s * N + p mod N) = cs ! (p mod N) ! s" if "s < 6" for s
  proof -
    have "s * N + p mod N < 6 * N" using cidx_less [OF that d(2)] by (simp add: cidx_def)
    then show ?thesis using d(2) by (simp add: flat_def)
  qed
  have "apply6 X N (flat N cs) ! p = (\<Sum>s<6. X (p div N) s * cs ! (p mod N) ! s)"
    using p by (simp add: apply6_def cell)
  moreover have "flat N (map (ap6 X) cs) ! p = (\<Sum>s<6. X (p div N) s * cs ! (p mod N) ! s)"
    using p d assms by (simp add: flat_def ap6_def)
  ultimately show "apply6 X N (flat N cs) ! p = flat N (map (ap6 X) cs) ! p" by simp
qed

lemma orthonormal_product:
  fixes A B :: "nat \<Rightarrow> nat \<Rightarrow> real"
  assumes A: "\<And>a b. a < 3 \<Longrightarrow> b < 3 \<Longrightarrow> (\<Sum>k<3. A k a * A k b) = (if a = b then 1 else 0)"
    and B: "(\<Sum>a<3. B a i * B a j) = (if i = j then 1 else 0)"
  shows "(\<Sum>k<3. (\<Sum>a<3. A k a * B a i) * (\<Sum>b<3. A k b * B b j)) = (if i = j then 1 else (0::real))"
proof -
  have "(\<Sum>k<3. (\<Sum>a<3. A k a * B a i) * (\<Sum>b<3. A k b * B b j))
      = (\<Sum>k<3. \<Sum>a<3. \<Sum>b<3. (A k a * A k b) * (B a i * B b j))"
    by (simp add: sum_product ac_simps)
  also have "\<dots> = (\<Sum>a<3. \<Sum>k<3. \<Sum>b<3. (A k a * A k b) * (B a i * B b j))"
    by (rule sum.swap)
  also have "\<dots> = (\<Sum>a<3. \<Sum>b<3. \<Sum>k<3. (A k a * A k b) * (B a i * B b j))"
    by (rule sum.cong [OF refl]) (rule sum.swap)
  also have "\<dots> = (\<Sum>a<3. \<Sum>b<3. (\<Sum>k<3. A k a * A k b) * (B a i * B b j))"
    by (simp add: sum_distrib_right)
  also have "\<dots> = (\<Sum>a<3. \<Sum>b<3. (if a = b then 1 else 0) * (B a i * B b j))"
    by (intro sum.cong refl) (simp add: A)
  also have "\<dots> = (\<Sum>a<3. B a i * B a j)"
    by (intro sum.cong refl) (simp add: sum3 lt3, auto simp: lt3)
  also have "\<dots> = (if i = j then 1 else 0)" by (rule B)
  finally show ?thesis .
qed

lemma homogeneous_length: "homogeneous M \<Longrightarrow> length M = 16"
  by (simp add: homogeneous_def)

lemma el_mult_rot:
  assumes "homogeneous B" "i < 4" "j < 3"
  shows "el (mult A B) i j = (\<Sum>k<3. el A i k * el B k j)"
proof -
  have "el B 3 j = 0" using assms by (simp add: homogeneous_bottom)
  then show ?thesis using assms by (simp add: el_mult sum4_split)
qed

lemma homogeneous_mult:
  assumes "homogeneous A" "homogeneous B"
  shows "homogeneous (mult A B)"
proof -
  have "el (mult A B) 3 j = (if j = 3 then 1 else 0)" if "j < 4" for j
    using that assms by (simp add: el_mult sum4 homogeneous_bottom)
  from this [of 0] this [of 1] this [of 2] this [of 3]
  show ?thesis by (simp add: homogeneous_def length_mult)
qed

lemma cols_orthonormalI:
  "(\<And>i j. i < 3 \<Longrightarrow> j < 3 \<Longrightarrow> (\<Sum>k<3. el M k i * el M k j) = (if i = j then 1 else 0))
    \<Longrightarrow> cols_orthonormal M"
  by (simp add: cols_orthonormal_def list_all_iff)

lemma rows_orthonormalI:
  "(\<And>i j. i < 3 \<Longrightarrow> j < 3 \<Longrightarrow> (\<Sum>k<3. el M i k * el M j k) = (if i = j then 1 else 0))
    \<Longrightarrow> rows_orthonormal M"
  by (simp add: rows_orthonormal_def list_all_iff)

lemma cols_orthonormal_mult:
  assumes "homogeneous B" "cols_orthonormal A" "cols_orthonormal B"
  shows "cols_orthonormal (mult A B)"
proof (rule cols_orthonormalI)
  fix i j :: nat assume ij: "i < 3" "j < 3"
  have "(\<Sum>k<3. el (mult A B) k i * el (mult A B) k j)
      = (\<Sum>k<3. (\<Sum>a<3. el A k a * el B a i) * (\<Sum>b<3. el A k b * el B b j))"
    using ij assms(1) by (intro sum.cong refl) (simp add: el_mult_rot)
  also have "\<dots> = (if i = j then 1 else 0)"
    by (rule orthonormal_product)
       (simp_all add: cols_orthonormalD [OF assms(2)] cols_orthonormalD [OF assms(3)] ij)
  finally show "(\<Sum>k<3. el (mult A B) k i * el (mult A B) k j) = (if i = j then 1 else 0)" .
qed

lemma rows_orthonormal_mult:
  assumes "homogeneous B" "rows_orthonormal A" "rows_orthonormal B"
  shows "rows_orthonormal (mult A B)"
proof (rule rows_orthonormalI)
  fix i j :: nat assume ij: "i < 3" "j < 3"
  have "(\<Sum>k<3. el (mult A B) i k * el (mult A B) j k)
      = (\<Sum>k<3. (\<Sum>a<3. el B a k * el A i a) * (\<Sum>b<3. el B b k * el A j b))"
    using ij assms(1) by (intro sum.cong refl) (simp add: el_mult_rot mult.commute)
  also have "\<dots> = (if i = j then 1 else 0)"
    by (rule orthonormal_product [where A = "\<lambda>k a. el B a k" and B = "\<lambda>a i. el A i a"])
       (simp_all add: rows_orthonormalD [OF assms(2)] rows_orthonormalD [OF assms(3)] ij)
  finally show "(\<Sum>k<3. el (mult A B) i k * el (mult A B) j k) = (if i = j then 1 else 0)" .
qed

lemma rigid_mult: "rigid A \<Longrightarrow> rigid B \<Longrightarrow> rigid (mult A B)"
  by (simp add: rigid_def homogeneous_mult cols_orthonormal_mult rows_orthonormal_mult)

lemma rigid_eye4: "rigid eye4"
  by (simp add: eye4_def rigid_def homogeneous_def cols_orthonormal_def rows_orthonormal_def
      el_def sum3 upt_3)

lemma sin_cos_sq: "sin x * sin x + cos x * cos (x::real) = 1"
  using sin_cos_squared_add [of x] by (simp add: power2_eq_square)

lemma cos_sin_sq: "cos x * cos x + sin x * sin (x::real) = 1"
  using sin_cos_squared_add2 [of x] by (simp add: power2_eq_square)

lemma rigid_op: "rigid (op a eta)"
  by (cases a)
     (simp_all add: rx_def ry_def rz_def tx_def ty_def tz_def rigid_def homogeneous_def
       cols_orthonormal_def rows_orthonormal_def el_def sum3 upt_3 Let_def sin_cos_sq cos_sin_sq)

lemma rigid_length: "rigid M \<Longrightarrow> length M = 16"
  by (simp add: rigid_def homogeneous_def)

lemma rigid_ET_T: "isjoint et \<or> rigid (et_T et) \<Longrightarrow> rigid (ET_T et eta)"
  by (auto simp: ET_T_def rigid_op copy_id rigid_length)

lemma rot_row:
  assumes "homogeneous P" "rows_orthonormal P" "r < 4" "a < 3"
  shows "(\<Sum>c<3. el (mult U P) r c * el P a c) = el U r a"
proof -
  have "(\<Sum>c<3. el (mult U P) r c * el P a c) = (\<Sum>c<3. (\<Sum>k<3. el U r k * el P k c) * el P a c)"
    using assms by (intro sum.cong refl) (simp add: el_mult_rot)
  also have "\<dots> = (\<Sum>c<3. \<Sum>k<3. el U r k * (el P k c * el P a c))"
    by (simp add: sum_distrib_right mult.assoc)
  also have "\<dots> = (\<Sum>k<3. \<Sum>c<3. el U r k * (el P k c * el P a c))"
    by (rule sum.swap)
  also have "\<dots> = (\<Sum>k<3. el U r k * (\<Sum>c<3. el P k c * el P a c))"
    by (simp add: sum_distrib_left)
  also have "\<dots> = (\<Sum>k<3. el U r k * (if k = a then 1 else 0))"
    using assms by (intro sum.cong refl) (simp add: rows_orthonormalD)
  also have "\<dots> = el U r a" using assms(4) by (auto simp: sum3 lt3)
  finally show ?thesis .
qed

lemma jacob_col_relation:
  assumes P: "homogeneous P" "rows_orthonormal P" and r: "r < 6"
  shows "jacob0_col a U P ! r = (\<Sum>s<6. rot6 (mult U P) r s * jacobe_col a P ! s)"
proof -
  define T where "T = mult U P"
  have R: "T ! (r' * 4) * P ! (a' * 4) + T ! (r' * 4 + 1) * P ! (a' * 4 + 1)
      + T ! (r' * 4 + 2) * P ! (a' * 4 + 2) = U ! (r' * 4 + a')" if "r' < 3" "a' < 3" for r' a'
    using rot_row [OF P, of r' a' U] that by (simp add: sum3 el_def T_def)
  note R0 = R [of 0 0, simplified] R [of 0 1, simplified] R [of 0 2, simplified]
  note R1 = R [of 1 0, simplified] R [of 1 1, simplified] R [of 1 2, simplified]
  note R2 = R [of 2 0, simplified] R [of 2 1, simplified] R [of 2 2, simplified]
  from r consider "r = 0" | "r = 1" | "r = 2" | "r = 3" | "r = 4" | "r = 5"
    by (auto simp: lt6)
  then show ?thesis
  proof cases
    case 1
    show ?thesis unfolding 1 T_def [symmetric]
      by (cases a) (simp_all add: sum6 rot6_def el_def R0 [symmetric] algebra_simps)
  next
    case 2
    show ?thesis unfolding 2 T_def [symmetric]
      by (cases a) (simp_all add: sum6 rot6_def el_def R1 [symmetric] algebra_simps)
  next
    case 3
    show ?thesis unfolding 3 T_def [symmetric]
      by (cases a) (simp_all add: sum6 rot6_def el_def R2 [symmetric] algebra_simps)
  next
    case 4
    show ?thesis unfolding 4 T_def [symmetric]
      by (cases a) (simp_all add: sum6 rot6_def el_def R0 [symmetric] algebra_simps)
  next
    case 5
    show ?thesis unfolding 5 T_def [symmetric]
      by (cases a) (simp_all add: sum6 rot6_def el_def R1 [symmetric] algebra_simps)
  next
    case 6
    show ?thesis unfolding 6 T_def [symmetric]
      by (cases a) (simp_all add: sum6 rot6_def el_def R2 [symmetric] algebra_simps)
  qed
qed

lemma rigid_chain_Cons:
  "rigid_chain (et # ets) \<longleftrightarrow> (isjoint et \<or> rigid (et_T et)) \<and> rigid_chain ets"
  by (simp add: rigid_chain_def)

lemma rigid_elem: "isjoint et \<or> rigid (et_T et) \<Longrightarrow> rigid (elem q et)"
  by (simp add: elem_def rigid_ET_T)

lemma suffix_pose_Cons: "suffix_pose q (et # ets) = mult (elem q et) (suffix_pose q ets)"
  by (simp add: suffix_pose_def)

lemma rigid_suffix_pose: "rigid_chain ets \<Longrightarrow> rigid (suffix_pose q ets)"
  by (induction ets)
     (simp_all add: suffix_pose_Cons rigid_chain_Cons rigid_mult rigid_elem,
      simp add: suffix_pose_def rigid_eye4)

lemma fkine_loop_cpp_suffix:
  "length U = 16 \<Longrightarrow> fkine_loop_cpp q U ets = mult U (suffix_pose q ets)"
proof (induction ets arbitrary: U)
  case Nil
  then show ?case by (simp add: suffix_pose_def mult_eye4_right copy_id)
next
  case (Cons et ets)
  show ?case
    by (simp add: Cons.IH length_mult suffix_pose_Cons mult_assoc4 elem_def)
qed

lemma inv4_cancel:
  assumes "rigid U" "length S = 16"
  shows "mult (inv4 U) (mult U S) = S"
proof -
  have "mult (inv4 U) (mult U S) = mult (mult (inv4 U) U) S" by (simp add: mult_assoc4)
  also have "\<dots> = mult eye4 S"
    using assms(1) by (simp add: inv4_left_inverse rigid_def)
  also have "\<dots> = S" using assms(2) by (simp add: mult_eye4_left copy_id)
  finally show ?thesis .
qed

lemma jacob_col_list_relation:
  assumes "rigid S"
  shows "jacob0_col a U S = ap6 (rot6 (mult U S)) (jacobe_col a S)"
proof (rule nth_equalityI)
  show "length (jacob0_col a U S) = length (ap6 (rot6 (mult U S)) (jacobe_col a S))"
    by (simp add: length_jacob0_col ap6_def)
next
  fix r assume "r < length (jacob0_col a U S)"
  then have r: "r < 6" by (simp add: length_jacob0_col)
  have "jacob0_col a U S ! r = (\<Sum>s<6. rot6 (mult U S) r s * jacobe_col a S ! s)"
    using assms r by (intro jacob_col_relation) (simp_all add: rigid_def)
  then show "jacob0_col a U S ! r = ap6 (rot6 (mult U S)) (jacobe_col a S) ! r"
    using r by (simp add: ap6_def)
qed

lemma cols0_relation:
  assumes "rigid U" "rigid_chain ets" "T = mult U (suffix_pose q ets)"
  shows "cols0 T q U ets = map (ap6 (rot6 T)) (colsE q ets)"
  using assms
proof (induction ets arbitrary: U)
  case Nil
  show ?case by simp
next
  case (Cons et ets)
  define U' where "U' = mult U (elem q et)"
  define S where "S = suffix_pose q ets"
  have et: "isjoint et \<or> rigid (et_T et)" and ch: "rigid_chain ets"
    using Cons.prems(2) by (simp_all add: rigid_chain_Cons)
  have U': "rigid U'" unfolding U'_def using Cons.prems(1) et by (simp add: rigid_mult rigid_elem)
  have S: "rigid S" unfolding S_def using ch by (rule rigid_suffix_pose)
  have T: "T = mult U' S"
    using Cons.prems(3) by (simp add: U'_def S_def suffix_pose_Cons mult_assoc4)
  have tl: "cols0 T q U' ets = map (ap6 (rot6 T)) (colsE q ets)"
    using U' ch T unfolding S_def by (rule Cons.IH)
  have "mult (inv4 U') T = S"
    unfolding T using U' S by (intro inv4_cancel) (simp_all add: rigid_length)
  then have hd: "jacob0_col a U' (mult (inv4 U') T) = ap6 (rot6 T) (jacobe_col a S)" for a
    using jacob_col_list_relation [OF S, of a U'] by (simp add: T)
  show ?case
    using tl hd by (simp add: Let_def U'_def [symmetric] S_def [symmetric])
qed

lemma fkine_example: "ETS_fkine_cpp [joint_rz, static_tx] zero_q None None = tx 1"
  by (simp add: zero_q_def ETS_fkine_cpp_def static_tx_def joint_rz_def ET_T_def rz_def tx_def copy_def
      upt_16 mult_cells eye4_def)

lemma jacob0_example:
  "ETS_jacob0_cpp [joint_rz, static_tx] 1 zero_q None [7, 7, 7, 7, 7, 7] = [0, 1, 0, 0, 0, 1]"
  unfolding ETS_jacob0_cpp_def fkine_example
  by (simp add: zero_q_def static_tx_def joint_rz_def ET_T_def rz_def tx_def copy_def
      upt_16 mult_cells eye4_def inv4_def set_col_def upd_def Let_def list_update_Cons_numeral)

lemma jacobe_example:
  "ETS_jacobe [joint_rz, static_tx] 1 zero_q None [7, 7, 7, 7, 7, 7] = [0, 1, 0, 0, 0, 1]"
  by (simp add: zero_q_def ETS_jacobe_def static_tx_def joint_rz_def ET_T_def rz_def tx_def copy_def
      upt_16 mult_cells eye4_def set_col_def upd_def Let_def list_update_Cons_numeral)

lemma Ad_example: "apply6 (Ad (tx 1)) 1 [0, 1, 0, 0, 0, 1] = [0, 0, 0, 0, 0, 1]"
  by (simp add: apply6_def Ad_def skew_def el_def tx_def upt_6 sum6 sum3)

text \<open>
  Claim C3, as stated, fails. For the chain of a joint about \<open>z\<close> followed by the static
  translation by 1 along \<open>x\<close>, at \<open>q = 0\<close>, both Jacobians of \<^verbatim>\<open>methods.cpp\<close> are the
  column \<open>(0, 1, 0, 0, 0, 1)\<close>, and the twist adjoint of the end pose maps that column to
  \<open>(0, 0, 0, 0, 0, 1)\<close>: the term \<open>[p]\<^sub>\<times> R\<close> of the adjoint is not part of the relation.
\<close>

theorem jacob0_is_not_Ad_jacobe:
  "ETS_jacob0_cpp [joint_rz, static_tx] 1 zero_q None [7, 7, 7, 7, 7, 7]
     \<noteq> apply6 (Ad (ETS_fkine_cpp [joint_rz, static_tx] zero_q None None)) 1
         (ETS_jacobe [joint_rz, static_tx] 1 zero_q None [7, 7, 7, 7, 7, 7])"
  unfolding jacob0_example jacobe_example fkine_example Ad_example by simp

text \<open>
  Claim C3, amended. For every chain whose static elements are rigid transforms and every
  configuration \<open>q\<close>, with no tool, \<open>n\<close> the number of joints of the chain and a \<open>6 x n\<close>
  output buffer, the base-frame and tool-frame Jacobians of \<^verbatim>\<open>methods.cpp\<close> are related
  by the rotation of the end-effector pose: \<open>jacobianBase = X \<cdot> jacobianTool\<close>, where \<open>X\<close> is
  the \<open>6 x 6\<close> matrix with the rotation block of \<open>T = forwardKinematics(chain, q)\<close> in both
  diagonal blocks and zero elsewhere.
\<close>

theorem jacob0_is_rotated_jacobe:
  assumes "rigid_chain ets" "n = int (n_joints ets)" "length J = 6 * n_joints ets"
  shows "ETS_jacob0_cpp ets n q None J =
     apply6 (rot6 (ETS_fkine_cpp ets q None None)) (n_joints ets) (ETS_jacobe ets n q None J)"
proof -
  define N where "N = n_joints ets"
  define T where "T = ETS_fkine_cpp ets q None None"
  have T: "T = mult eye4 (suffix_pose q ets)"
    by (simp add: T_def ETS_fkine_cpp_def fkine_loop_cpp_suffix length_eye4)
  have c0: "cols0 T q eye4 ets = map (ap6 (rot6 T)) (colsE q ets)"
    using rigid_eye4 assms(1) T by (rule cols0_relation)
  have "ETS_jacob0_cpp ets n q None J = write_cols (int N) 0 (cols0 T q eye4 ets) J"
    by (simp add: ETS_jacob0_cpp_def jacob0_loop_cols T_def N_def assms(2))
  also have "\<dots> = flat N (cols0 T q eye4 ets)"
    by (rule write_cols_flat) (simp_all add: length_cols0 N_def assms(3))
  also have "\<dots> = apply6 (rot6 T) N (flat N (colsE q ets))"
    unfolding c0 by (rule apply6_flat [symmetric]) (simp add: length_colsE N_def)
  finally have 1: "ETS_jacob0_cpp ets n q None J = apply6 (rot6 T) N (flat N (colsE q ets))" .
  have "ETS_jacobe ets n q None J = write_cols_down (int N) (int N - 1) (colse q eye4 (rev ets)) J"
    by (simp add: ETS_jacobe_def jacobe_loop_cols N_def assms(2))
  also have "\<dots> = flat N (rev (colse q eye4 (rev ets)))"
    by (rule write_cols_down_flat)
       (simp_all add: length_colse N_def assms(3) n_joints_def rev_filter [symmetric])
  also have "\<dots> = flat N (colsE q ets)" by (simp add: colse_rev)
  finally have 2: "ETS_jacobe ets n q None J = flat N (colsE q ets)" .
  show ?thesis unfolding 1 2 by (simp add: T_def N_def)
qed

lemma rigid_chain_example: "rigid_chain [joint_rz, static_tx]"
  using rigid_op [of TransX 1] by (simp add: rigid_chain_def joint_rz_def static_tx_def)

lemma n_joints_example: "n_joints [joint_rz, static_tx] = 1"
  by (simp add: n_joints_def joint_rz_def static_tx_def)

theorem jacob0_is_rotated_jacobe_witness:
  "rigid_chain [joint_rz, static_tx]
   \<and> (1::int) = int (n_joints [joint_rz, static_tx])
   \<and> length [7, 7, 7, 7, 7, 7 :: real] = 6 * n_joints [joint_rz, static_tx]
   \<and> ETS_jacob0_cpp [joint_rz, static_tx] 1 (\<lambda>k. 1) None [7, 7, 7, 7, 7, 7]
       = apply6 (rot6 (ETS_fkine_cpp [joint_rz, static_tx] (\<lambda>k. 1) None None)) 1
           (ETS_jacobe [joint_rz, static_tx] 1 (\<lambda>k. 1) None [7, 7, 7, 7, 7, 7])"
  using jacob0_is_rotated_jacobe
    [of "[joint_rz, static_tx]" 1 "[7, 7, 7, 7, 7, 7]" "\<lambda>k. 1"] rigid_chain_example
  by (simp add: n_joints_example)

end
